theory Spec2Isabelle
  imports Complex_Main
begin

section \<open>The game of Pig (pig_extended.py)\<close>

text \<open>
  A shallow embedding of \<^verbatim>\<open>pig_extended.py\<close>. Python objects with identity
  (the players) live in an explicit store addressed by references; the game object
  holds a list of references, as \<^verbatim>\<open>self.players\<close> does. Everything the
  program takes from outside is a script in the world: the values the die will show,
  the lines typed on standard input and the readings of the clock. Every
  \<^verbatim>\<open>print\<close> and every prompt appends one event to the output, carrying the
  values the format string interpolates.
\<close>

subsection \<open>Players and the store\<close>

datatype player_class = HumanPlayer | ComputerPlayer

record player =
  name :: string
  score :: int
  cls :: player_class

type_synonym ref = nat

datatype event =
    Rolled string int
  | ScoresNothing string
  | TurnTotal int string int
  | Decides string string
  | Prompt
  | Thanks
  | Holds string int
  | Welcome
  | StartingTimed
  | TimesUp int
  | Wins string int
  | FinalScores
  | PlayerLine string int

record world =
  heap :: "ref \<Rightarrow> player"
  next_ref :: ref
  rolls :: "int list"
  stdin :: "string list"
  clock :: "real list"
  stdout :: "event list"

datatype error = ValueError | IndexError | ZeroDivisionError | EOFError | SystemExit

text \<open>
  The outcome of a call: it returns a value, or it raises, or the script of die rolls
  or clock readings handed to the model ran out before the call was over
  (\<open>Starved\<close>). The world is kept in the first two cases, as the store and the output
  outlive an exception.
\<close>

datatype 'a result = Returns 'a world | Raises error world | Starved

definition print :: "event \<Rightarrow> world \<Rightarrow> world" where
  "print e w = w\<lparr>stdout := stdout w @ [e]\<rparr>"

text \<open>\<^verbatim>\<open>Player.__init__\<close>: a fresh object with the given name and score 0.\<close>

definition new_player :: "player_class \<Rightarrow> string \<Rightarrow> world \<Rightarrow> ref \<times> world" where
  "new_player c n w =
     (next_ref w,
      w\<lparr>heap := (heap w)(next_ref w := \<lparr>name = n, score = 0, cls = c\<rparr>),
        next_ref := Suc (next_ref w)\<rparr>)"

text \<open>\<^verbatim>\<open>Player.reset_score\<close>\<close>

definition reset_score :: "ref \<Rightarrow> world \<Rightarrow> world" where
  "reset_score p w = w\<lparr>heap := (heap w)(p := (heap w p)\<lparr>score := 0\<rparr>)\<rparr>"

text \<open>\<^verbatim>\<open>ComputerPlayer.decide\<close>\<close>

definition decide :: "player \<Rightarrow> int \<Rightarrow> string" where
  "decide self turn_total =
     (if turn_total \<ge> min 25 (100 - score self) then ''h'' else ''r'')"

text \<open>\<^verbatim>\<open>PlayerFactory.create_player\<close>\<close>

definition create_player :: "string \<Rightarrow> string \<Rightarrow> world \<Rightarrow> ref result" where
  "create_player player_type n w =
     (if player_type = ''human'' then
        (case new_player HumanPlayer n w of (p, w') \<Rightarrow> Returns p w')
      else if player_type = ''computer'' then
        (case new_player ComputerPlayer n w of (p, w') \<Rightarrow> Returns p w')
      else Raises ValueError w)"

subsection \<open>The die, standard input and the clock\<close>

text \<open>\<^verbatim>\<open>Die.roll\<close>: the next value of the script (\<open>None\<close> when it is used up).\<close>

definition roll :: "world \<Rightarrow> (int \<times> world) option" where
  "roll w = (case rolls w of [] \<Rightarrow> None | r # rs \<Rightarrow> Some (r, w\<lparr>rolls := rs\<rparr>))"

text \<open>
  \<^verbatim>\<open>time.time()\<close>: the next reading of the clock, in seconds. Readings are real
  numbers here; the rounding of floating-point arithmetic is not part of the model.
\<close>

definition time :: "world \<Rightarrow> (real \<times> world) option" where
  "time w = (case clock w of [] \<Rightarrow> None | c # cs \<Rightarrow> Some (c, w\<lparr>clock := cs\<rparr>))"

text \<open>
  Strings are read as sequences of code points below 256. \<^verbatim>\<open>str.strip()\<close> removes
  the leading and trailing white space (for these code points: 9 to 13, 28 to 32, 133 and
  160) and \<^verbatim>\<open>str.lower()\<close> maps the upper-case letters to lower case (A to Z, and
  192 to 222 except 215).
\<close>

definition isspace :: "char \<Rightarrow> bool" where
  "isspace c =
     (let k = (of_char c :: nat)
      in (9 \<le> k \<and> k \<le> 13) \<or> (28 \<le> k \<and> k \<le> 32) \<or> k = 133 \<or> k = 160)"

definition strip :: "string \<Rightarrow> string" where
  "strip s = rev (dropWhile isspace (rev (dropWhile isspace s)))"

definition lower_char :: "char \<Rightarrow> char" where
  "lower_char c =
     (let k = (of_char c :: nat)
      in if (65 \<le> k \<and> k \<le> 90) \<or> (192 \<le> k \<and> k \<le> 222 \<and> k \<noteq> 215)
         then char_of (k + 32) else c)"

definition lower :: "string \<Rightarrow> string" where
  "lower s = map lower_char s"

text \<open>
  \<^verbatim>\<open>input(prompt)\<close>: the prompt is written, then one line is read; at the end
  of the input Python raises \<^verbatim>\<open>EOFError\<close>.
\<close>

definition input :: "world \<Rightarrow> string result" where
  "input w =
     (let w1 = print Prompt w
      in case stdin w1 of
           [] \<Rightarrow> Raises EOFError w1
         | l # ls \<Rightarrow> Returns l (w1\<lparr>stdin := ls\<rparr>))"

subsection \<open>The game\<close>

record pig_game =
  players :: "ref list"
  current_player_index :: nat

text \<open>\<^verbatim>\<open>PigGame.__init__\<close>\<close>

definition PigGame_init :: "string \<Rightarrow> string \<Rightarrow> world \<Rightarrow> pig_game result" where
  "PigGame_init player1_type player2_type w =
     (case create_player player1_type ''Player 1'' w of
        Raises e w' \<Rightarrow> Raises e w'
      | Starved \<Rightarrow> Starved
      | Returns p1 w1 \<Rightarrow>
          (case create_player player2_type ''Player 2'' w1 of
             Raises e w' \<Rightarrow> Raises e w'
           | Starved \<Rightarrow> Starved
           | Returns p2 w2 \<Rightarrow>
               Returns \<lparr>players = [p1, p2], current_player_index = 0\<rparr> w2))"

text \<open>\<^verbatim>\<open>PigGame.switch_player\<close>; the remainder by an empty list's length raises.\<close>

definition switch_player :: "pig_game \<Rightarrow> error + pig_game" where
  "switch_player g =
     (if length (players g) = 0 then Inl ZeroDivisionError
      else Inr (g\<lparr>current_player_index :=
                    (current_player_index g + 1) mod length (players g)\<rparr>))"

text \<open>
  Lines 81 to 89 of \<^verbatim>\<open>play_turn\<close>: the decision of the current player. A
  computer player is asked for its strategy; any other player is prompted, and the
  answers q, quit and exit leave the program.
\<close>

definition get_decision :: "ref \<Rightarrow> int \<Rightarrow> world \<Rightarrow> string result" where
  "get_decision current_player turn_total w =
     (if cls (heap w current_player) = ComputerPlayer then
        (let decision = decide (heap w current_player) turn_total
         in Returns decision
              (print (Decides (name (heap w current_player))
                        (if decision = ''h'' then ''hold'' else ''roll again'')) w))
      else
        (case input w of
           Raises e w' \<Rightarrow> Raises e w'
         | Starved \<Rightarrow> Starved
         | Returns l w1 \<Rightarrow>
             (let decision = lower (strip l)
              in if decision \<in> set [''q'', ''quit'', ''exit'']
                 then Raises SystemExit (print Thanks w1)
                 else Returns decision w1)))"

text \<open>Lines 92 and 93: the turn total is added to the score of the current player.\<close>

definition hold :: "ref \<Rightarrow> int \<Rightarrow> world \<Rightarrow> world" where
  "hold current_player turn_total w =
     (let w1 = w\<lparr>heap := (heap w)(current_player :=
                  (heap w current_player)\<lparr>score := score (heap w current_player) + turn_total\<rparr>)\<rparr>
      in print (Holds (name (heap w1 current_player)) (score (heap w1 current_player))) w1)"

lemma rolls_print [simp]: "rolls (print e w) = rolls w"
  by (simp add: print_def)

lemma roll_length: "roll w = Some (r, w') \<Longrightarrow> length (rolls w') < length (rolls w)"
  by (auto simp: roll_def split: list.splits)

lemma get_decision_rolls:
  "get_decision p t w = Returns d w' \<Longrightarrow> rolls w' = rolls w"
  by (auto simp: get_decision_def input_def Let_def print_def
           split: if_splits list.splits result.splits)

text \<open>The \<^verbatim>\<open>while True\<close> loop of \<^verbatim>\<open>play_turn\<close> (lines 69 to 94).\<close>

function turn_loop :: "ref \<Rightarrow> int \<Rightarrow> world \<Rightarrow> unit result" where
  "turn_loop current_player turn_total w =
     (case roll w of
        None \<Rightarrow> Starved
      | Some (r, w1) \<Rightarrow>
          (let w2 = print (Rolled (name (heap w1 current_player)) r) w1
           in if r = 1 then
                Returns () (print (ScoresNothing (name (heap w2 current_player))) w2)
              else
                (let turn_total' = turn_total + r;
                     w3 = print (TurnTotal turn_total' (name (heap w2 current_player))
                                   (score (heap w2 current_player))) w2
                 in case get_decision current_player turn_total' w3 of
                      Raises e w' \<Rightarrow> Raises e w'
                    | Starved \<Rightarrow> Starved
                    | Returns decision w4 \<Rightarrow>
                        if decision = ''h'' then Returns () (hold current_player turn_total' w4)
                        else turn_loop current_player turn_total' w4)))"
  by pat_completeness auto
termination
proof (relation "measure (\<lambda>(p, t, w). length (rolls w))")
  show "wf (measure (\<lambda>(p, t, w). length (rolls w)))" by simp
next
  fix current_player :: ref and turn_total :: int and w x2 r w1 w2 turn_total' w3 x decision w4
  assume "roll w = Some x2" "(r, w1) = x2"
    and w2: "w2 = print (Rolled (name (heap w1 current_player)) r) w1"
    and w3: "w3 = print (TurnTotal turn_total' (name (heap w2 current_player))
                          (score (heap w2 current_player))) w2"
    and d: "get_decision current_player turn_total' w3 = Returns decision w4"
  then have "length (rolls w1) < length (rolls w)"
    using roll_length by metis
  moreover have "rolls w4 = rolls w1"
    using get_decision_rolls [OF d] w2 w3 by simp
  ultimately show "((current_player, turn_total', w4), (current_player, turn_total, w))
      \<in> measure (\<lambda>(p, t, w). length (rolls w))"
    by simp
qed

declare turn_loop.simps [simp del]

lemma turn_loop_rolls:
  "turn_loop p t w = Returns u w' \<Longrightarrow> length (rolls w') < length (rolls w)"
proof (induction p t w rule: turn_loop.induct)
  case (1 p t w)
  show ?case
  proof (cases "roll w")
    case None
    with "1.prems" show ?thesis by (simp add: turn_loop.simps)
  next
    case (Some a)
    obtain r w1 where a: "a = (r, w1)" by (cases a)
    have less: "length (rolls w1) < length (rolls w)"
      using Some a roll_length by simp
    define w2 where "w2 = print (Rolled (name (heap w1 p)) r) w1"
    define w3 where "w3 = print (TurnTotal (t + r) (name (heap w2 p)) (score (heap w2 p))) w2"
    show ?thesis
    proof (cases "r = 1")
      case True
      with "1.prems" Some a less show ?thesis
        by (auto simp: turn_loop.simps Let_def)
    next
      case False
      show ?thesis
      proof (cases "get_decision p (t + r) w3")
        case (Returns d w4)
        have eq: "rolls w4 = rolls w1"
          using get_decision_rolls [OF Returns] by (simp add: w3_def w2_def)
        show ?thesis
        proof (cases "d = ''h''")
          case True
          with "1.prems" Some a False Returns eq less show ?thesis
            by (auto simp: turn_loop.simps Let_def w3_def w2_def hold_def)
        next
          case nh: False
          have "turn_loop p (t + r) w4 = Returns u w'"
            using "1.prems" Some a False Returns nh
            by (simp add: turn_loop.simps Let_def w3_def w2_def)
          then have "length (rolls w') < length (rolls w4)"
            using "1.IH" [OF Some a [symmetric] w2_def False refl w3_def Returns nh] by simp
          with eq less show ?thesis by simp
        qed
      next
        case (Raises e w4)
        with "1.prems" Some a False show ?thesis
          by (simp add: turn_loop.simps Let_def w3_def w2_def)
      next
        case Starved
        with "1.prems" Some a False show ?thesis
          by (simp add: turn_loop.simps Let_def w3_def w2_def)
      qed
    qed
  qed
qed

text \<open>\<^verbatim>\<open>PigGame.play_turn\<close>\<close>

definition play_turn :: "pig_game \<Rightarrow> world \<Rightarrow> pig_game result" where
  "play_turn g w =
     (if current_player_index g < length (players g) then
        (let current_player = players g ! current_player_index g
         in case turn_loop current_player 0 w of
              Raises e w' \<Rightarrow> Raises e w'
            | Starved \<Rightarrow> Starved
            | Returns u w' \<Rightarrow>
                (case switch_player g of
                   Inl e \<Rightarrow> Raises e w'
                 | Inr g' \<Rightarrow> Returns g' w'))
      else Raises IndexError w)"

text \<open>\<^verbatim>\<open>PigGame.is_game_over\<close>\<close>

definition is_game_over :: "pig_game \<Rightarrow> world \<Rightarrow> bool" where
  "is_game_over g w = list_ex (\<lambda>p. score (heap w p) \<ge> 100) (players g)"

lemma play_turn_rolls:
  "play_turn g w = Returns g' w' \<Longrightarrow> length (rolls w') < length (rolls w)"
  by (auto simp: play_turn_def Let_def split: if_splits result.splits sum.splits
           dest: turn_loop_rolls)

text \<open>The \<^verbatim>\<open>while\<close> loop of \<^verbatim>\<open>PigGame.play_game\<close> (lines 105 and 106).\<close>

function game_loop :: "pig_game \<Rightarrow> world \<Rightarrow> pig_game result" where
  "game_loop g w =
     (if \<not> is_game_over g w then
        (case play_turn g w of
           Raises e w' \<Rightarrow> Raises e w'
         | Starved \<Rightarrow> Starved
         | Returns g' w' \<Rightarrow> game_loop g' w')
      else Returns g w)"
  by pat_completeness auto
termination
  by (relation "measure (\<lambda>(g, w). length (rolls w))") (auto dest: play_turn_rolls)

declare game_loop.simps [simp del]

text \<open>
  Python's \<^verbatim>\<open>max(xs, key=f)\<close>: the items are scanned from the left and the one
  held is replaced only by an item with a strictly greater key.
\<close>

fun max_key :: "('a \<Rightarrow> int) \<Rightarrow> 'a \<Rightarrow> 'a list \<Rightarrow> 'a" where
  "max_key key m [] = m"
| "max_key key m (x # xs) = max_key key (if key x > key m then x else m) xs"

text \<open>
  Lines 108 to 112 of \<^verbatim>\<open>PigGame.play_game\<close>, which lines 145 to 149 of
  \<^verbatim>\<open>TimedGameProxy.play_game\<close> repeat: the winner and the final scores.
  \<^verbatim>\<open>max\<close> of an empty list raises \<^verbatim>\<open>ValueError\<close>.
\<close>

definition report_winner :: "pig_game \<Rightarrow> world \<Rightarrow> unit result" where
  "report_winner g w =
     (case players g of
        [] \<Rightarrow> Raises ValueError w
      | p # ps \<Rightarrow>
          (let winner = max_key (\<lambda>player. score (heap w player)) p ps;
               w1 = print (Wins (name (heap w winner)) (score (heap w winner))) w;
               w2 = print FinalScores w1
           in Returns ()
                (fold (\<lambda>player v. print (PlayerLine (name (heap v player)) (score (heap v player))) v)
                   (players g) w2)))"

text \<open>\<^verbatim>\<open>PigGame.play_game\<close>\<close>

definition play_game :: "pig_game \<Rightarrow> world \<Rightarrow> pig_game result" where
  "play_game g w =
     (case game_loop g (print Welcome w) of
        Raises e w' \<Rightarrow> Raises e w'
      | Starved \<Rightarrow> Starved
      | Returns g' w' \<Rightarrow>
          (case report_winner g' w' of
             Raises e w'' \<Rightarrow> Raises e w''
           | Starved \<Rightarrow> Starved
           | Returns u w'' \<Rightarrow> Returns g' w''))"

text \<open>\<^verbatim>\<open>PigGame.reset_game\<close>\<close>

definition reset_game :: "pig_game \<Rightarrow> world \<Rightarrow> pig_game \<times> world" where
  "reset_game g w = (g\<lparr>current_player_index := 0\<rparr>, fold reset_score (players g) w)"

subsection \<open>The timed game\<close>

record timed_game_proxy =
  game :: pig_game
  time_limit :: real

text \<open>\<^verbatim>\<open>int(x)\<close> of a float: the fraction is cut off, towards zero.\<close>

definition int_of_float :: "real \<Rightarrow> int" where
  "int_of_float x = (if x \<ge> 0 then \<lfloor>x\<rfloor> else \<lceil>x\<rceil>)"

lemma rolls_time: "time w = Some (c, w') \<Longrightarrow> rolls w' = rolls w"
  by (auto simp: time_def split: list.splits)

text \<open>The \<^verbatim>\<open>while\<close> loop of \<^verbatim>\<open>TimedGameProxy.play_game\<close> (lines 133 to 142).\<close>

function timed_loop :: "real \<Rightarrow> real \<Rightarrow> pig_game \<Rightarrow> world \<Rightarrow> pig_game result" where
  "timed_loop limit start_time g w =
     (if \<not> is_game_over g w then
        (case time w of
           None \<Rightarrow> Starved
         | Some (current_time, w1) \<Rightarrow>
             (let elapsed_time = current_time - start_time
              in if elapsed_time > limit then
                   Returns g (print (TimesUp (int_of_float elapsed_time)) w1)
                 else
                   (case play_turn g w1 of
                      Raises e w' \<Rightarrow> Raises e w'
                    | Starved \<Rightarrow> Starved
                    | Returns g' w' \<Rightarrow> timed_loop limit start_time g' w')))
      else Returns g w)"
  by pat_completeness auto
termination
proof (relation "measure (\<lambda>(l, s, g, w). length (rolls w))")
  show "wf (measure (\<lambda>(l, s, g, w). length (rolls w)))" by simp
next
  fix limit start_time :: real and g w x2 current_time w1 elapsed_time g' w'
  assume "time w = Some x2" "(current_time, w1) = x2"
    and "play_turn g w1 = Returns g' w'"
  then have "rolls w1 = rolls w" "length (rolls w') < length (rolls w1)"
    using rolls_time play_turn_rolls by metis+
  then show "((limit, start_time, g', w'), (limit, start_time, g, w))
      \<in> measure (\<lambda>(l, s, g, w). length (rolls w))"
    by simp
qed

declare timed_loop.simps [simp del]

text \<open>\<^verbatim>\<open>TimedGameProxy.play_game\<close>\<close>

definition timed_play_game :: "timed_game_proxy \<Rightarrow> world \<Rightarrow> timed_game_proxy result" where
  "timed_play_game self w =
     (case time w of
        None \<Rightarrow> Starved
      | Some (start_time, w0) \<Rightarrow>
          (case timed_loop (time_limit self) start_time (game self) (print StartingTimed w0) of
             Raises e w' \<Rightarrow> Raises e w'
           | Starved \<Rightarrow> Starved
           | Returns g' w' \<Rightarrow>
               (case report_winner g' w' of
                  Raises e w'' \<Rightarrow> Raises e w''
                | Starved \<Rightarrow> Starved
                | Returns u w'' \<Rightarrow> Returns (self\<lparr>game := g'\<rparr>) w'')))"

text \<open>\<^verbatim>\<open>main\<close>\<close>

definition main :: "string \<Rightarrow> string \<Rightarrow> bool \<Rightarrow> world \<Rightarrow> unit result" where
  "main player1_type player2_type timed w =
     (case PigGame_init player1_type player2_type w of
        Raises e w' \<Rightarrow> Raises e w'
      | Starved \<Rightarrow> Starved
      | Returns g w1 \<Rightarrow>
          (if timed then
             (case timed_play_game \<lparr>game = g, time_limit = 60\<rparr> w1 of
                Raises e w' \<Rightarrow> Raises e w'
              | Starved \<Rightarrow> Starved
              | Returns proxy w' \<Rightarrow> Returns () w')
           else
             (case play_game g w1 of
                Raises e w' \<Rightarrow> Raises e w'
              | Starved \<Rightarrow> Starved
              | Returns g' w' \<Rightarrow> Returns () w')))"

section \<open>Properties of one turn\<close>

text \<open>The loop of a turn, unfolded once for each way the next roll can go.\<close>

lemma turn_loop_no_rolls: "rolls w = [] \<Longrightarrow> turn_loop p t w = Starved"
  by (simp add: turn_loop.simps roll_def)

lemma turn_loop_one:
  "rolls w = 1 # rs \<Longrightarrow>
   turn_loop p t w =
     Returns () (w\<lparr>rolls := rs,
                   stdout := stdout w @ [Rolled (name (heap w p)) 1, ScoresNothing (name (heap w p))]\<rparr>)"
  by (simp add: turn_loop.simps roll_def print_def)

lemma turn_loop_other:
  "rolls w = r # rs \<Longrightarrow> r \<noteq> 1 \<Longrightarrow>
   turn_loop p t w =
     (case get_decision p (t + r)
             (w\<lparr>rolls := rs,
                stdout := stdout w @ [Rolled (name (heap w p)) r,
                                      TurnTotal (t + r) (name (heap w p)) (score (heap w p))]\<rparr>) of
        Raises e w' \<Rightarrow> Raises e w'
      | Starved \<Rightarrow> Starved
      | Returns d w4 \<Rightarrow>
          if d = ''h'' then Returns () (hold p (t + r) w4) else turn_loop p (t + r) w4)"
  by (simp add: turn_loop.simps roll_def print_def Let_def)

lemma get_decision_human:
  "cls (heap w p) \<noteq> ComputerPlayer \<Longrightarrow> stdin w = l # ls \<Longrightarrow>
   get_decision p t w =
     (if lower (strip l) \<in> {''q'', ''quit'', ''exit''}
      then Raises SystemExit (w\<lparr>stdin := ls, stdout := stdout w @ [Prompt, Thanks]\<rparr>)
      else Returns (lower (strip l)) (w\<lparr>stdin := ls, stdout := stdout w @ [Prompt]\<rparr>))"
  by (simp add: get_decision_def input_def print_def Let_def)

lemma get_decision_computer:
  "cls (heap w p) = ComputerPlayer \<Longrightarrow>
   get_decision p t w =
     Returns (decide (heap w p) t)
       (w\<lparr>stdout := stdout w @ [Decides (name (heap w p))
                 (if decide (heap w p) t = ''h'' then ''hold'' else ''roll again'')]\<rparr>)"
  by (simp add: get_decision_def print_def Let_def)


lemma get_decision_Returns:
  assumes "get_decision p t w = Returns d w'"
  shows "heap w' = heap w" and "next_ref w' = next_ref w" and "rolls w' = rolls w"
    and "clock w' = clock w"
    and "\<exists>ev. stdout w' = stdout w @ [ev]"
  using assms
  by (auto simp: get_decision_def input_def print_def Let_def
           split: if_splits list.splits)

lemma get_decision_Raises:
  assumes "get_decision p t w = Raises e w'"
  shows "heap w' = heap w" and "next_ref w' = next_ref w"
    and "e = EOFError \<or> e = SystemExit"
  using assms
  by (auto simp: get_decision_def input_def print_def Let_def
           split: if_splits list.splits)

lemma turn_loop_Raises:
  "rolls w = rs \<Longrightarrow> turn_loop p t w = Raises e w' \<Longrightarrow>
   heap w' = heap w \<and> next_ref w' = next_ref w \<and> (e = EOFError \<or> e = SystemExit)"
proof (induction rs arbitrary: t w)
  case Nil
  then show ?case by (simp add: turn_loop_no_rolls)
next
  case (Cons r rs)
  show ?case
  proof (cases "r = 1")
    case True
    with Cons.prems show ?thesis by (simp add: turn_loop_one)
  next
    case False
    let ?w3 = "w\<lparr>rolls := rs,
                stdout := stdout w @ [Rolled (name (heap w p)) r,
                                      TurnTotal (t + r) (name (heap w p)) (score (heap w p))]\<rparr>"
    note unf = turn_loop_other [OF Cons.prems(1) [symmetric, THEN sym] False, of p t]
    show ?thesis
    proof (cases "get_decision p (t + r) ?w3")
      case (Returns d w4)
      note facts = get_decision_Returns [OF Returns]
      show ?thesis
      proof (cases "d = ''h''")
        case True
        with Cons.prems(2) unf Returns show ?thesis by simp
      next
        case nh: False
        have "turn_loop p (t + r) w4 = Raises e w'"
          using Cons.prems(2) unf Returns nh by simp
        moreover have "rolls w4 = rs" using facts by simp
        ultimately have "heap w' = heap w4 \<and> next_ref w' = next_ref w4 \<and> (e = EOFError \<or> e = SystemExit)"
          using Cons.IH by blast
        with facts show ?thesis by simp
      qed
    next
      case (Raises e' w4)
      with Cons.prems(2) unf get_decision_Raises [OF Raises] show ?thesis by simp
    next
      case Starved
      with Cons.prems(2) unf show ?thesis by simp
    qed
  qed
qed

lemma hold_fields:
  "heap (hold p k w) = (heap w)(p := (heap w p)\<lparr>score := score (heap w p) + k\<rparr>)"
  "next_ref (hold p k w) = next_ref w" "rolls (hold p k w) = rolls w"
  "clock (hold p k w) = clock w" "stdin (hold p k w) = stdin w"
  "stdout (hold p k w) = stdout w @ [Holds (name (heap w p)) (score (heap w p) + k)]"
  by (simp_all add: hold_def print_def Let_def)

lemma turn_loop_Returns:
  "rolls w = rs \<Longrightarrow> turn_loop p t w = Returns u w' \<Longrightarrow>
   next_ref w' = next_ref w \<and> clock w' = clock w \<and>
   (\<exists>pre r evs. rolls w = pre @ r # rolls w' \<and> 1 \<notin> set pre \<and>
      (if r = 1
       then heap w' = heap w \<and>
            stdout w' = stdout w @ evs @
              [Rolled (name (heap w p)) 1, ScoresNothing (name (heap w p))]
       else heap w' = (heap w)(p := (heap w p)
                        \<lparr>score := score (heap w p) + (t + sum_list pre + r)\<rparr>) \<and>
            stdout w' = stdout w @ evs @
              [Holds (name (heap w p)) (score (heap w p) + (t + sum_list pre + r))]))"
proof (induction rs arbitrary: t w)
  case Nil
  then show ?case by (simp add: turn_loop_no_rolls)
next
  case (Cons r rs)
  have rw: "rolls w = r # rs" using Cons.prems(1) .
  show ?case
  proof (cases "r = 1")
    case True
    have w': "w' = w\<lparr>rolls := rs,
                   stdout := stdout w @ [Rolled (name (heap w p)) 1, ScoresNothing (name (heap w p))]\<rparr>"
      using Cons.prems(2) rw True by (simp add: turn_loop_one)
    have "rolls w = [] @ 1 # rolls w' \<and> 1 \<notin> set ([]::int list) \<and> heap w' = heap w \<and>
          stdout w' = stdout w @ [] @ [Rolled (name (heap w p)) 1, ScoresNothing (name (heap w p))]"
      using w' rw True by simp
    then have "\<exists>pre r evs. rolls w = pre @ r # rolls w' \<and> 1 \<notin> set pre \<and>
      (if r = 1
       then heap w' = heap w \<and>
            stdout w' = stdout w @ evs @
              [Rolled (name (heap w p)) 1, ScoresNothing (name (heap w p))]
       else heap w' = (heap w)(p := (heap w p)
                        \<lparr>score := score (heap w p) + (t + sum_list pre + r)\<rparr>) \<and>
            stdout w' = stdout w @ evs @
              [Holds (name (heap w p)) (score (heap w p) + (t + sum_list pre + r))])"
      by (intro exI [of _ "[]"] exI [of _ "1::int"]) simp
    with w' show ?thesis by simp
  next
    case False
    let ?w3 = "w\<lparr>rolls := rs,
                stdout := stdout w @ [Rolled (name (heap w p)) r,
                                      TurnTotal (t + r) (name (heap w p)) (score (heap w p))]\<rparr>"
    note unf = turn_loop_other [OF rw False, of p t]
    show ?thesis
    proof (cases "get_decision p (t + r) ?w3")
      case (Returns d w4)
      note facts = get_decision_Returns [OF Returns]
      from facts(5) obtain ev where ev: "stdout w4 = stdout ?w3 @ [ev]" by blast
      show ?thesis
      proof (cases "d = ''h''")
        case True
        have w': "w' = hold p (t + r) w4"
          using Cons.prems(2) unf Returns True by simp
        have "rolls w = [] @ r # rolls w' \<and> 1 \<notin> set ([]::int list) \<and>
              heap w' = (heap w)(p := (heap w p)\<lparr>score := score (heap w p) + (t + sum_list [] + r)\<rparr>) \<and>
              stdout w' = stdout w @ [Rolled (name (heap w p)) r,
                   TurnTotal (t + r) (name (heap w p)) (score (heap w p)), ev] @
                [Holds (name (heap w p)) (score (heap w p) + (t + sum_list [] + r))]"
          using w' rw facts ev by (simp add: hold_fields)
        then have "\<exists>pre r' evs. rolls w = pre @ r' # rolls w' \<and> 1 \<notin> set pre \<and>
          (if r' = 1
           then heap w' = heap w \<and>
                stdout w' = stdout w @ evs @
                  [Rolled (name (heap w p)) 1, ScoresNothing (name (heap w p))]
           else heap w' = (heap w)(p := (heap w p)
                            \<lparr>score := score (heap w p) + (t + sum_list pre + r')\<rparr>) \<and>
                stdout w' = stdout w @ evs @
                  [Holds (name (heap w p)) (score (heap w p) + (t + sum_list pre + r'))])"
          using False by (intro exI [of _ "[]"] exI [of _ r]
              exI [of _ "[Rolled (name (heap w p)) r,
                   TurnTotal (t + r) (name (heap w p)) (score (heap w p)), ev]"]) simp
        moreover have "next_ref w' = next_ref w \<and> clock w' = clock w"
          using w' facts by (simp add: hold_fields)
        ultimately show ?thesis by blast
      next
        case nh: False
        have run: "turn_loop p (t + r) w4 = Returns u w'"
          using Cons.prems(2) unf Returns nh by simp
        have r4: "rolls w4 = rs" using facts by simp
        from Cons.IH [OF r4 run] obtain pre r' evs where
          nc: "next_ref w' = next_ref w4" "clock w' = clock w4"
          and split: "rolls w4 = pre @ r' # rolls w'" and one: "1 \<notin> set pre"
          and fin: "if r' = 1
            then heap w' = heap w4 \<and>
                 stdout w' = stdout w4 @ evs @
                   [Rolled (name (heap w4 p)) 1, ScoresNothing (name (heap w4 p))]
            else heap w' = (heap w4)(p := (heap w4 p)
                             \<lparr>score := score (heap w4 p) + (t + r + sum_list pre + r')\<rparr>) \<and>
                 stdout w' = stdout w4 @ evs @
                   [Holds (name (heap w4 p)) (score (heap w4 p) + (t + r + sum_list pre + r'))]"
          by blast
        have h4: "heap w4 = heap w" using facts by simp
        have "rolls w = (r # pre) @ r' # rolls w' \<and> 1 \<notin> set (r # pre) \<and>
          (if r' = 1
           then heap w' = heap w \<and>
                stdout w' = stdout w @ ([Rolled (name (heap w p)) r,
                   TurnTotal (t + r) (name (heap w p)) (score (heap w p)), ev] @ evs) @
                  [Rolled (name (heap w p)) 1, ScoresNothing (name (heap w p))]
           else heap w' = (heap w)(p := (heap w p)
                            \<lparr>score := score (heap w p) + (t + sum_list (r # pre) + r')\<rparr>) \<and>
                stdout w' = stdout w @ ([Rolled (name (heap w p)) r,
                   TurnTotal (t + r) (name (heap w p)) (score (heap w p)), ev] @ evs) @
                  [Holds (name (heap w p)) (score (heap w p) + (t + sum_list (r # pre) + r'))])"
          using rw r4 split one False fin h4 ev by (simp add: add.assoc)
        then have "\<exists>pre r' evs. rolls w = pre @ r' # rolls w' \<and> 1 \<notin> set pre \<and>
          (if r' = 1
           then heap w' = heap w \<and>
                stdout w' = stdout w @ evs @
                  [Rolled (name (heap w p)) 1, ScoresNothing (name (heap w p))]
           else heap w' = (heap w)(p := (heap w p)
                            \<lparr>score := score (heap w p) + (t + sum_list pre + r')\<rparr>) \<and>
                stdout w' = stdout w @ evs @
                  [Holds (name (heap w p)) (score (heap w p) + (t + sum_list pre + r'))])"
          by blast
        moreover have "next_ref w' = next_ref w \<and> clock w' = clock w"
          using nc facts by simp
        ultimately show ?thesis by blast
      qed
    next
      case (Raises e' w4)
      with Cons.prems(2) unf show ?thesis by simp
    next
      case Starved
      with Cons.prems(2) unf show ?thesis by simp
    qed
  qed
qed

lemma play_turn_Returns:
  assumes "play_turn g w = Returns g' w'"
  shows "current_player_index g < length (players g)"
    and "turn_loop (players g ! current_player_index g) 0 w = Returns () w'"
    and "g' = g\<lparr>current_player_index := (current_player_index g + 1) mod length (players g)\<rparr>"
  using assms
  by (auto simp: play_turn_def switch_player_def Let_def
           split: if_splits result.splits sum.splits)

lemma play_turn_first_roll_one:
  assumes "current_player_index g < length (players g)" and "rolls w = 1 # rs"
  shows "play_turn g w =
     Returns (g\<lparr>current_player_index := (current_player_index g + 1) mod length (players g)\<rparr>)
       (w\<lparr>rolls := rs,
          stdout := stdout w @
            [Rolled (name (heap w (players g ! current_player_index g))) 1,
             ScoresNothing (name (heap w (players g ! current_player_index g)))]\<rparr>)"
  using assms by (auto simp: play_turn_def switch_player_def Let_def turn_loop_one)

lemma play_turn_Raises:
  assumes "play_turn g w = Raises SystemExit w'"
  shows "turn_loop (players g ! current_player_index g) 0 w = Raises SystemExit w'"
  using assms
  by (auto simp: play_turn_def switch_player_def Let_def
           split: if_splits result.splits sum.splits)

lemma get_decision_stdout:
  "get_decision p t w = Raises e w' \<Longrightarrow> \<exists>evs. stdout w' = stdout w @ evs"
  by (auto simp: get_decision_def input_def print_def Let_def
           split: if_splits list.splits)

lemma turn_loop_Raises_stdout:
  "rolls w = rs \<Longrightarrow> turn_loop p t w = Raises e w' \<Longrightarrow> \<exists>evs. stdout w' = stdout w @ evs"
proof (induction rs arbitrary: t w)
  case Nil
  then show ?case by (simp add: turn_loop_no_rolls)
next
  case (Cons r rs)
  show ?case
  proof (cases "r = 1")
    case True
    with Cons.prems show ?thesis by (simp add: turn_loop_one)
  next
    case False
    let ?w3 = "w\<lparr>rolls := rs,
                stdout := stdout w @ [Rolled (name (heap w p)) r,
                                      TurnTotal (t + r) (name (heap w p)) (score (heap w p))]\<rparr>"
    note unf = turn_loop_other [OF Cons.prems(1) False, of p t]
    show ?thesis
    proof (cases "get_decision p (t + r) ?w3")
      case (Returns d w4)
      note facts = get_decision_Returns [OF Returns]
      from facts(5) obtain ev where ev: "stdout w4 = stdout ?w3 @ [ev]" by blast
      show ?thesis
      proof (cases "d = ''h''")
        case True
        with Cons.prems(2) unf Returns show ?thesis by simp
      next
        case nh: False
        have "turn_loop p (t + r) w4 = Raises e w'"
          using Cons.prems(2) unf Returns nh by simp
        moreover have "rolls w4 = rs" using facts by simp
        ultimately obtain evs where "stdout w' = stdout w4 @ evs"
          using Cons.IH by blast
        with ev show ?thesis by simp
      qed
    next
      case (Raises e' w4)
      from get_decision_stdout [OF Raises] obtain evs where "stdout w4 = stdout ?w3 @ evs"
        by blast
      with Cons.prems(2) unf Raises show ?thesis by simp
    next
      case Starved
      with Cons.prems(2) unf show ?thesis by simp
    qed
  qed
qed

lemma turn_loop_stdout:
  assumes "turn_loop p t w = Returns u w' \<or> turn_loop p t w = Raises e w'"
  shows "\<exists>evs. stdout w' = stdout w @ evs"
proof -
  from assms show ?thesis
  proof
    assume "turn_loop p t w = Returns u w'"
    from turn_loop_Returns [OF refl this] obtain evs and tl :: "event list"
      where "stdout w' = stdout w @ evs @ tl"
      by (metis (no_types, lifting))
    then show ?thesis by (intro exI [of _ "evs @ tl"]) simp
  next
    assume "turn_loop p t w = Raises e w'"
    then show ?thesis by (rule turn_loop_Raises_stdout [OF refl])
  qed
qed

lemma turn_loop_first_event:
  assumes "rolls w = r # rs"
    and "turn_loop p t w = Returns u w' \<or> turn_loop p t w = Raises e w'"
  shows "\<exists>evs. stdout w' = stdout w @ Rolled (name (heap w p)) r # evs"
proof (cases "r = 1")
  case True
  with assms show ?thesis by (auto simp: turn_loop_one)
next
  case False
  let ?w3 = "w\<lparr>rolls := rs,
              stdout := stdout w @ [Rolled (name (heap w p)) r,
                                    TurnTotal (t + r) (name (heap w p)) (score (heap w p))]\<rparr>"
  note unf = turn_loop_other [OF assms(1) False, of p t]
  show ?thesis
  proof (cases "get_decision p (t + r) ?w3")
    case (Returns d w4)
    note facts = get_decision_Returns [OF Returns]
    from facts(5) obtain ev where ev: "stdout w4 = stdout ?w3 @ [ev]" by blast
    show ?thesis
    proof (cases "d = ''h''")
      case True
      with assms(2) unf Returns ev show ?thesis by (auto simp: hold_fields)
    next
      case nh: False
      have "turn_loop p (t + r) w4 = Returns u w' \<or> turn_loop p (t + r) w4 = Raises e w'"
        using assms(2) unf Returns nh by simp
      from turn_loop_stdout [OF this] obtain evs where "stdout w' = stdout w4 @ evs"
        by blast
      with ev show ?thesis by simp
    qed
  next
    case (Raises e' w4)
    from get_decision_stdout [OF Raises] obtain evs where "stdout w4 = stdout ?w3 @ evs"
      by blast
    with assms(2) unf Raises show ?thesis by auto
  next
    case Starved
    with assms(2) unf show ?thesis by simp
  qed
qed

subsection \<open>A concrete game\<close>

text \<open>
  Two players as \<^verbatim>\<open>PigGame.__init__\<close> names them, a human and a computer with
  given scores, in a world whose die and keyboard scripts are given.
\<close>

definition example_heap :: "int \<Rightarrow> int \<Rightarrow> ref \<Rightarrow> player" where
  "example_heap a b =
     (\<lambda>p. \<lparr>name = [], score = 0, cls = HumanPlayer\<rparr>)
       (0 := \<lparr>name = ''Player 1'', score = a, cls = HumanPlayer\<rparr>,
        1 := \<lparr>name = ''Player 2'', score = b, cls = ComputerPlayer\<rparr>)"

definition example_world :: "int \<Rightarrow> int \<Rightarrow> int list \<Rightarrow> string list \<Rightarrow> world" where
  "example_world a b rs ls =
     \<lparr>heap = example_heap a b, next_ref = 2, rolls = rs, stdin = ls, clock = [],
      stdout = []\<rparr>"

definition example_game :: "nat \<Rightarrow> pig_game" where
  "example_game i = \<lparr>players = [0, 1], current_player_index = i\<rparr>"

text \<open>The world before anything is constructed.\<close>

definition empty_world :: world where
  "empty_world =
     \<lparr>heap = (\<lambda>p. \<lparr>name = [], score = 0, cls = HumanPlayer\<rparr>), next_ref = 0,
      rolls = [], stdin = [], clock = [], stdout = []\<rparr>"

lemma normalise_r: "lower (strip ''r'') = ''r''"
  by code_simp

lemma normalise_hold: "lower (strip ''hold'') = ''hold''"
  by code_simp

lemma normalise_h: "lower (strip '' H '') = ''h''"
  by code_simp

lemma normalise_quit: "lower (strip ''Quit'') = ''quit''"
  by code_simp

lemma normalise_roll: "lower (strip ''ROLL'') = ''roll''"
  by code_simp

lemma normalise_h': "lower (strip ''h'') = ''h''"
  by code_simp

lemma normalise_other: "lower (strip ''hold'') \<notin> {''h'', ''q'', ''quit'', ''exit''}"
  by code_simp

section \<open>The computer's strategy\<close>

text \<open>
  C2. A computer player with banked score \<open>score self\<close> holds (answers \<open>h\<close>) exactly
  when the turn total has reached the lesser of 25 and 100 minus its score; in every
  other case it rolls again (answers \<open>r\<close>).
\<close>

theorem decide_threshold:
  "(decide self turn_total = ''h'') = (turn_total \<ge> min 25 (100 - score self)) \<and>
   (decide self turn_total = ''r'') = (\<not> turn_total \<ge> min 25 (100 - score self))"
  by (simp add: decide_def)

section \<open>A roll of 1\<close>

text \<open>
  C3. When the die shows 1, at the first roll of a turn or at a later one, the loop of the
  turn ends at once: the roll is not added to anything, the store (every banked score) is
  as before, no line is read from the keyboard and neither a prompt nor a computer's
  decision is written after the roll. For a whole turn: a 1 among the rolls the turn used
  is the last of them, all scores are as they were before the turn, the output ends with
  the roll and the message that nothing is scored, and the index moves on to the next
  player (with two players, to the other one).
\<close>

theorem roll_one_forfeits_turn:
  "(rolls w = 1 # rs \<longrightarrow>
      turn_loop p t w =
        Returns () (w\<lparr>rolls := rs,
                      stdout := stdout w @ [Rolled (name (heap w p)) 1,
                                            ScoresNothing (name (heap w p))]\<rparr>)) \<and>
   (play_turn g v = Returns g' v' \<and> rolls v = consumed @ rolls v' \<and> 1 \<in> set consumed \<longrightarrow>
      last consumed = 1 \<and> 1 \<notin> set (butlast consumed) \<and>
      heap v' = heap v \<and>
      (\<exists>evs. stdout v' = stdout v @ evs @
          [Rolled (name (heap v (players g ! current_player_index g))) 1,
           ScoresNothing (name (heap v (players g ! current_player_index g)))]) \<and>
      players g' = players g \<and>
      current_player_index g' = (current_player_index g + 1) mod length (players g) \<and>
      (length (players g) = 2 \<longrightarrow>
         current_player_index g' = 1 - current_player_index g))"
proof (intro conjI impI)
  assume "rolls w = 1 # rs"
  then show "turn_loop p t w =
        Returns () (w\<lparr>rolls := rs,
                      stdout := stdout w @ [Rolled (name (heap w p)) 1,
                                            ScoresNothing (name (heap w p))]\<rparr>)"
    by (rule turn_loop_one)
next
  assume a: "play_turn g v = Returns g' v' \<and> rolls v = consumed @ rolls v' \<and> 1 \<in> set consumed"
  let ?p = "players g ! current_player_index g"
  note pt = play_turn_Returns [OF a [THEN conjunct1]]
  from turn_loop_Returns [OF refl pt(2)] obtain pre r evs where
    split: "rolls v = pre @ r # rolls v'" and one: "1 \<notin> set pre"
    and fin: "if r = 1
       then heap v' = heap v \<and>
            stdout v' = stdout v @ evs @ [Rolled (name (heap v ?p)) 1, ScoresNothing (name (heap v ?p))]
       else heap v' = (heap v)(?p := (heap v ?p)
                        \<lparr>score := score (heap v ?p) + (0 + sum_list pre + r)\<rparr>) \<and>
            stdout v' = stdout v @ evs @
              [Holds (name (heap v ?p)) (score (heap v ?p) + (0 + sum_list pre + r))]"
    by blast
  have c: "consumed = pre @ [r]"
    using a split by simp
  with a one have r: "r = 1" by auto
  show "last consumed = 1" using c r by simp
  show "1 \<notin> set (butlast consumed)" using c one by simp
  show "heap v' = heap v" using fin r by simp
  show "\<exists>evs. stdout v' = stdout v @ evs @
          [Rolled (name (heap v ?p)) 1, ScoresNothing (name (heap v ?p))]"
    using fin r by auto
  show "players g' = players g" using pt(3) by simp
  show idx: "current_player_index g' = (current_player_index g + 1) mod length (players g)"
    using pt(3) by simp
  show "current_player_index g' = 1 - current_player_index g" if "length (players g) = 2"
    using idx pt(1) that by (cases "current_player_index g") auto
qed

lemma example_turn:
  "play_turn (example_game 0) (example_world 10 20 [3, 1, 5] [''r'']) =
     Returns (example_game 1)
       ((example_world 10 20 [5] [])\<lparr>stdout :=
           [Rolled ''Player 1'' 3, TurnTotal 3 ''Player 1'' 10, Prompt,
            Rolled ''Player 1'' 1, ScoresNothing ''Player 1'']\<rparr>)"
  by (simp add: play_turn_def switch_player_def example_game_def example_world_def
        example_heap_def turn_loop_other turn_loop_one get_decision_human normalise_r)

theorem roll_one_forfeits_turn_witness:
  "turn_loop 0 3 (example_world 10 20 [1, 5] []) =
     Returns () ((example_world 10 20 [5] [])\<lparr>stdout :=
         [Rolled ''Player 1'' 1, ScoresNothing ''Player 1'']\<rparr>) \<and>
   play_turn (example_game 0) (example_world 10 20 [3, 1, 5] [''r'']) =
     Returns (example_game 1)
       ((example_world 10 20 [5] [])\<lparr>stdout :=
           [Rolled ''Player 1'' 3, TurnTotal 3 ''Player 1'' 10, Prompt,
            Rolled ''Player 1'' 1, ScoresNothing ''Player 1'']\<rparr>) \<and>
   rolls (example_world 10 20 [3, 1, 5] [''r'']) = [3, 1] @ rolls (example_world 10 20 [5] []) \<and>
   (1::int) \<in> set [3, 1] \<and>
   last [3, 1::int] = 1 \<and>
   score (heap (example_world 10 20 [5] []) 0) = score (heap (example_world 10 20 [3, 1, 5] [''r'']) 0) \<and>
   current_player_index (example_game 1) = 1 - current_player_index (example_game 0)"
  using roll_one_forfeits_turn [of "example_world 10 20 [1, 5] []" "[5]" 0 3
      "example_game 0" "example_world 10 20 [3, 1, 5] [''r'']" "example_game 1"
      "(example_world 10 20 [5] [])\<lparr>stdout :=
           [Rolled ''Player 1'' 3, TurnTotal 3 ''Player 1'' 10, Prompt,
            Rolled ''Player 1'' 1, ScoresNothing ''Player 1'']\<rparr>" "[3, 1]"]
    example_turn
  by (simp add: example_world_def example_game_def example_heap_def)

section \<open>The end of the game\<close>

text \<open>
  C4. \<^verbatim>\<open>is_game_over\<close> is true exactly when some player of the game has a score of
  100 or more; with the two players of a game, exactly when the first or the second has.
\<close>

theorem is_game_over_iff:
  "is_game_over g w = (\<exists>p \<in> set (players g). score (heap w p) \<ge> 100) \<and>
   (players g = [p1, p2] \<longrightarrow>
      is_game_over g w = (score (heap w p1) \<ge> 100 \<or> score (heap w p2) \<ge> 100))"
  by (auto simp: is_game_over_def list_ex_iff)

theorem is_game_over_iff_witness:
  "is_game_over (example_game 0) (example_world 10 20 [] []) = False \<and>
   is_game_over (example_game 0) (example_world 10 100 [] []) = True \<and>
   is_game_over (example_game 1) (example_world 103 20 [] []) = True \<and>
   players (example_game 0) = [0, 1]"
  using is_game_over_iff [of "example_game 0" "example_world 10 20 [] []" 0 1]
    is_game_over_iff [of "example_game 0" "example_world 10 100 [] []" 0 1]
    is_game_over_iff [of "example_game 1" "example_world 103 20 [] []" 0 1]
  by (simp add: example_game_def example_world_def example_heap_def)

section \<open>Constructing players\<close>

lemma create_player_valid:
  assumes "player_type = ''human'' \<or> player_type = ''computer''"
  shows "create_player player_type n w =
     Returns (next_ref w)
       (w\<lparr>heap := (heap w)(next_ref w :=
              \<lparr>name = n, score = 0,
               cls = (if player_type = ''human'' then HumanPlayer else ComputerPlayer)\<rparr>),
          next_ref := Suc (next_ref w)\<rparr>)"
  using assms by (auto simp: create_player_def new_player_def)

lemma create_player_invalid:
  assumes "player_type \<noteq> ''human''" and "player_type \<noteq> ''computer''"
  shows "create_player player_type n w = Raises ValueError w"
  using assms by (simp add: create_player_def)

text \<open>
  C8. A player type other than \<^verbatim>\<open>human\<close> and \<^verbatim>\<open>computer\<close> makes
  \<^verbatim>\<open>create_player\<close> raise \<^verbatim>\<open>ValueError\<close> with the world untouched;
  \<^verbatim>\<open>PigGame.__init__\<close> and \<^verbatim>\<open>main\<close> then raise it too, whichever of the two
  players has the bad type, so no game object comes to exist and nothing is rolled, read or
  written. With one of the two types the construction returns a fresh player of that kind,
  with the given name and score 0, and with two good types the game is constructed.
\<close>

theorem create_player_validates:
  "(player_type \<notin> {''human'', ''computer''} \<longrightarrow>
      create_player player_type n w = Raises ValueError w \<and>
      PigGame_init player_type t2 w = Raises ValueError w \<and>
      (\<exists>w'. PigGame_init t1 player_type w = Raises ValueError w' \<and>
            rolls w' = rolls w \<and> stdin w' = stdin w \<and> stdout w' = stdout w) \<and>
      (\<exists>w'. main player_type t2 timed w = Raises ValueError w' \<and>
            rolls w' = rolls w \<and> stdin w' = stdin w \<and> stdout w' = stdout w) \<and>
      (\<exists>w'. main t1 player_type timed w = Raises ValueError w' \<and>
            rolls w' = rolls w \<and> stdin w' = stdin w \<and> stdout w' = stdout w)) \<and>
   (player_type \<in> {''human'', ''computer''} \<longrightarrow>
      (\<exists>w'. create_player player_type n w = Returns (next_ref w) w' \<and>
            name (heap w' (next_ref w)) = n \<and> score (heap w' (next_ref w)) = 0 \<and>
            (cls (heap w' (next_ref w)) = ComputerPlayer) = (player_type = ''computer''))) \<and>
   (t1 \<in> {''human'', ''computer''} \<and> t2 \<in> {''human'', ''computer''} \<longrightarrow>
      (\<exists>w'. PigGame_init t1 t2 w =
              Returns \<lparr>players = [next_ref w, Suc (next_ref w)], current_player_index = 0\<rparr> w'))"
proof (intro conjI impI)
  assume inv: "player_type \<notin> {''human'', ''computer''}"
  then have ne: "player_type \<noteq> ''human''" "player_type \<noteq> ''computer''" by auto
  show c: "create_player player_type n w = Raises ValueError w"
    using ne by (rule create_player_invalid)
  show i1: "PigGame_init player_type t2 w = Raises ValueError w"
    by (simp add: PigGame_init_def create_player_invalid [OF ne])
  show i2: "\<exists>w'. PigGame_init t1 player_type w = Raises ValueError w' \<and>
            rolls w' = rolls w \<and> stdin w' = stdin w \<and> stdout w' = stdout w"
  proof (cases "t1 = ''human'' \<or> t1 = ''computer''")
    case True
    then show ?thesis
      by (simp add: PigGame_init_def create_player_valid create_player_invalid [OF ne])
  next
    case False
    then show ?thesis
      by (simp add: PigGame_init_def create_player_invalid)
  qed
  show "\<exists>w'. main player_type t2 timed w = Raises ValueError w' \<and>
            rolls w' = rolls w \<and> stdin w' = stdin w \<and> stdout w' = stdout w"
    by (simp add: main_def i1)
  from i2 obtain w' where "PigGame_init t1 player_type w = Raises ValueError w'"
    "rolls w' = rolls w" "stdin w' = stdin w" "stdout w' = stdout w" by blast
  then show "\<exists>w'. main t1 player_type timed w = Raises ValueError w' \<and>
            rolls w' = rolls w \<and> stdin w' = stdin w \<and> stdout w' = stdout w"
    by (simp add: main_def)
next
  assume "player_type \<in> {''human'', ''computer''}"
  then have v: "player_type = ''human'' \<or> player_type = ''computer''" by simp
  show "\<exists>w'. create_player player_type n w = Returns (next_ref w) w' \<and>
            name (heap w' (next_ref w)) = n \<and> score (heap w' (next_ref w)) = 0 \<and>
            (cls (heap w' (next_ref w)) = ComputerPlayer) = (player_type = ''computer'')"
    using v by (auto simp: create_player_valid)
next
  assume "t1 \<in> {''human'', ''computer''} \<and> t2 \<in> {''human'', ''computer''}"
  then have v: "t1 = ''human'' \<or> t1 = ''computer''" "t2 = ''human'' \<or> t2 = ''computer''"
    by simp_all
  show "\<exists>w'. PigGame_init t1 t2 w =
              Returns \<lparr>players = [next_ref w, Suc (next_ref w)], current_player_index = 0\<rparr> w'"
    by (simp add: PigGame_init_def create_player_valid [OF v(1)] create_player_valid [OF v(2)])
qed

theorem create_player_validates_witness:
  "''robot'' \<notin> {''human'', ''computer''} \<and>
   create_player ''robot'' ''Player 1'' empty_world = Raises ValueError empty_world \<and>
   PigGame_init ''robot'' ''human'' empty_world = Raises ValueError empty_world \<and>
   ''computer'' \<in> {''human'', ''computer''} \<and> ''human'' \<in> {''human'', ''computer''} \<and>
   (\<exists>w'. create_player ''computer'' ''Player 1'' empty_world = Returns 0 w' \<and>
         score (heap w' 0) = 0 \<and> cls (heap w' 0) = ComputerPlayer) \<and>
   (\<exists>w'. PigGame_init ''human'' ''computer'' empty_world =
           Returns \<lparr>players = [0, 1], current_player_index = 0\<rparr> w')"
  using create_player_validates [of "''robot''" "''Player 1''" empty_world "''human''" "''human''" False]
    create_player_validates [of "''computer''" "''Player 1''" empty_world "''computer''" "''human''" False]
  by (auto simp: empty_world_def)

section \<open>Resetting the game\<close>

lemma fold_reset_score:
  "fold reset_score ps w =
     w\<lparr>heap := (\<lambda>p. if p \<in> set ps then (heap w p)\<lparr>score := 0\<rparr> else heap w p)\<rparr>"
proof (induction ps arbitrary: w)
  case Nil
  show ?case by simp
next
  case (Cons a ps)
  have "(\<lambda>p. if p \<in> set ps then (heap (reset_score a w) p)\<lparr>score := 0\<rparr> else heap (reset_score a w) p)
      = (\<lambda>p. if p \<in> set (a # ps) then (heap w p)\<lparr>score := 0\<rparr> else heap w p)"
    by (rule ext) (simp add: reset_score_def)
  then show ?case
    by (simp add: Cons.IH) (simp add: reset_score_def)
qed

text \<open>
  C9. \<^verbatim>\<open>reset_game\<close> leaves every player of the game with score 0 and the index
  of the current player at 0. It allocates nothing: the game refers to the same player
  objects, the next free reference is the same, every object keeps its name and class, and
  objects outside the game are untouched, as are the die, the keyboard, the clock and the
  output. Resetting the state it produced changes nothing more.
\<close>

theorem reset_game_idempotent:
  "reset_game g w = (g', w') \<Longrightarrow>
   (\<forall>p \<in> set (players g). score (heap w' p) = 0) \<and>
   current_player_index g' = 0 \<and>
   players g' = players g \<and>
   next_ref w' = next_ref w \<and>
   (\<forall>p. name (heap w' p) = name (heap w p) \<and> cls (heap w' p) = cls (heap w p)) \<and>
   (\<forall>p. p \<notin> set (players g) \<longrightarrow> heap w' p = heap w p) \<and>
   rolls w' = rolls w \<and> stdin w' = stdin w \<and> clock w' = clock w \<and> stdout w' = stdout w \<and>
   reset_game g' w' = (g', w')"
proof -
  assume a: "reset_game g w = (g', w')"
  have g': "g' = g\<lparr>current_player_index := 0\<rparr>"
    and w': "w' = w\<lparr>heap := (\<lambda>p. if p \<in> set (players g) then (heap w p)\<lparr>score := 0\<rparr> else heap w p)\<rparr>"
    using a by (auto simp: reset_game_def fold_reset_score)
  have "(\<lambda>p. if p \<in> set (players g) then (heap w' p)\<lparr>score := 0\<rparr> else heap w' p) = heap w'"
    by (rule ext) (simp add: w')
  then have "reset_game g' w' = (g', w')"
    by (simp add: reset_game_def fold_reset_score g')
  then show ?thesis
    by (simp add: g' w')
qed

theorem reset_game_idempotent_witness:
  "reset_game (example_game 1) (example_world 10 20 [4] [''h'']) =
     (example_game 0, example_world 0 0 [4] [''h'']) \<and>
   score (heap (example_world 0 0 [4] [''h'']) 0) = 0 \<and>
   score (heap (example_world 0 0 [4] [''h'']) 1) = 0 \<and>
   reset_game (example_game 0) (example_world 0 0 [4] [''h'']) =
     (example_game 0, example_world 0 0 [4] [''h''])"
proof -
  have r: "reset_game (example_game 1) (example_world 10 20 [4] [''h'']) =
     (example_game 0, example_world 0 0 [4] [''h''])"
    unfolding reset_game_def fold_reset_score
    by (auto simp: example_game_def example_world_def example_heap_def fun_eq_iff)
  from reset_game_idempotent [OF r] show ?thesis
    using r by (simp add: example_game_def)
qed

section \<open>The answers of a human player\<close>

text \<open>
  C1, as the program has it. A human player is asked after every roll other than 1. With
  the answer stripped and in lower case: \<open>r\<close> and \<open>roll\<close> go on to the next roll with
  the turn total kept and the store untouched; \<open>h\<close> adds the turn total to the score of
  the player and ends the loop of the turn; \<open>q\<close>, \<open>quit\<close> and \<open>exit\<close> raise
  \<^verbatim>\<open>SystemExit\<close> at once, with no further roll and the store untouched. A turn that
  ends in \<^verbatim>\<open>SystemExit\<close> leaves every score as it was when the turn began, and the
  game loop passes the exit on. The word \<open>hold\<close> is not among the answers that bank.
\<close>

theorem human_decision:
  assumes "cls (heap w p) = HumanPlayer"
    and "rolls w = r # rs" and "r \<noteq> 1" and "stdin w = l # ls"
  shows
   "(lower (strip l) \<in> {''r'', ''roll''} \<longrightarrow>
       turn_loop p t w =
         turn_loop p (t + r)
           (w\<lparr>rolls := rs, stdin := ls,
              stdout := stdout w @ [Rolled (name (heap w p)) r,
                TurnTotal (t + r) (name (heap w p)) (score (heap w p)), Prompt]\<rparr>)) \<and>
    (lower (strip l) = ''h'' \<longrightarrow>
       turn_loop p t w =
         Returns ()
           (w\<lparr>heap := (heap w)(p := (heap w p)\<lparr>score := score (heap w p) + (t + r)\<rparr>),
              rolls := rs, stdin := ls,
              stdout := stdout w @ [Rolled (name (heap w p)) r,
                TurnTotal (t + r) (name (heap w p)) (score (heap w p)), Prompt,
                Holds (name (heap w p)) (score (heap w p) + (t + r))]\<rparr>)) \<and>
    (lower (strip l) \<in> {''q'', ''quit'', ''exit''} \<longrightarrow>
       turn_loop p t w =
         Raises SystemExit
           (w\<lparr>rolls := rs, stdin := ls,
              stdout := stdout w @ [Rolled (name (heap w p)) r,
                TurnTotal (t + r) (name (heap w p)) (score (heap w p)), Prompt, Thanks]\<rparr>)) \<and>
    (\<forall>g v v'. play_turn g v = Raises SystemExit v' \<longrightarrow>
       heap v' = heap v \<and>
       (\<not> is_game_over g v \<longrightarrow> game_loop g v = Raises SystemExit v'))"
proof (intro conjI impI allI)
  have human: "cls (heap w p) \<noteq> ComputerPlayer" using assms(1) by simp
  let ?w3 = "w\<lparr>rolls := rs,
      stdout := stdout w @ [Rolled (name (heap w p)) r,
         TurnTotal (t + r) (name (heap w p)) (score (heap w p))]\<rparr>"
  have h3: "cls (heap ?w3 p) \<noteq> ComputerPlayer" "stdin ?w3 = l # ls"
    using human assms(4) by simp_all
  note unf = turn_loop_other [OF assms(2,3), of p t]
  note dec = get_decision_human [OF h3, of "t + r"]
  {
    assume "lower (strip l) \<in> {''r'', ''roll''}"
    then show "turn_loop p t w =
         turn_loop p (t + r)
           (w\<lparr>rolls := rs, stdin := ls,
              stdout := stdout w @ [Rolled (name (heap w p)) r,
                TurnTotal (t + r) (name (heap w p)) (score (heap w p)), Prompt]\<rparr>)"
      unfolding unf dec by auto
  }
  {
    assume "lower (strip l) = ''h''"
    then show "turn_loop p t w =
         Returns ()
           (w\<lparr>heap := (heap w)(p := (heap w p)\<lparr>score := score (heap w p) + (t + r)\<rparr>),
              rolls := rs, stdin := ls,
              stdout := stdout w @ [Rolled (name (heap w p)) r,
                TurnTotal (t + r) (name (heap w p)) (score (heap w p)), Prompt,
                Holds (name (heap w p)) (score (heap w p) + (t + r))]\<rparr>)"
      unfolding unf dec by (simp add: hold_def print_def)
  }
  {
    assume "lower (strip l) \<in> {''q'', ''quit'', ''exit''}"
    then show "turn_loop p t w =
         Raises SystemExit
           (w\<lparr>rolls := rs, stdin := ls,
              stdout := stdout w @ [Rolled (name (heap w p)) r,
                TurnTotal (t + r) (name (heap w p)) (score (heap w p)), Prompt, Thanks]\<rparr>)"
      unfolding unf dec by auto
  }
  {
    fix g v v'
    assume a: "play_turn g v = Raises SystemExit v'"
    show "heap v' = heap v"
      using turn_loop_Raises [OF refl play_turn_Raises [OF a]] by simp
    show "game_loop g v = Raises SystemExit v'" if "\<not> is_game_over g v"
      using a that by (simp add: game_loop.simps)
  }
qed

theorem human_decision_witness:
  "turn_loop 0 2 (example_world 10 20 [4, 1] [''ROLL'']) =
     Returns ()
       ((example_world 10 20 [] [])\<lparr>stdout :=
           [Rolled ''Player 1'' 4, TurnTotal 6 ''Player 1'' 10, Prompt,
            Rolled ''Player 1'' 1, ScoresNothing ''Player 1'']\<rparr>) \<and>
   turn_loop 0 2 (example_world 10 20 [4, 1] ['' H '']) =
     Returns ()
       ((example_world 16 20 [1] [])\<lparr>stdout :=
           [Rolled ''Player 1'' 4, TurnTotal 6 ''Player 1'' 10, Prompt,
            Holds ''Player 1'' 16]\<rparr>) \<and>
   turn_loop 0 2 (example_world 10 20 [4, 1] [''Quit'']) =
     Raises SystemExit
       ((example_world 10 20 [1] [])\<lparr>stdout :=
           [Rolled ''Player 1'' 4, TurnTotal 6 ''Player 1'' 10, Prompt, Thanks]\<rparr>) \<and>
   game_loop (example_game 0) (example_world 10 20 [4, 1] [''Quit'']) =
     Raises SystemExit
       ((example_world 10 20 [1] [])\<lparr>stdout :=
           [Rolled ''Player 1'' 4, TurnTotal 4 ''Player 1'' 10, Prompt, Thanks]\<rparr>)"
proof -
  have pre: "cls (heap (example_world 10 20 [4, 1] ls) 0) = HumanPlayer"
    "rolls (example_world 10 20 [4, 1] ls) = 4 # [1]" "(4::int) \<noteq> 1"
    "stdin (example_world 10 20 [4, 1] [l]) = l # []" for l ls
    by (simp_all add: example_world_def example_heap_def)
  note roll = human_decision [OF pre(1,2,3) pre(4) [of "''ROLL''"], of 2]
  note hold = human_decision [OF pre(1,2,3) pre(4) [of "'' H ''"], of 2]
  note quit = human_decision [OF pre(1,2,3) pre(4) [of "''Quit''"], of 2]
  note quit0 = human_decision [OF pre(1,2,3) pre(4) [of "''Quit''"], of 0]
  have 1: "turn_loop 0 2 (example_world 10 20 [4, 1] [''ROLL'']) =
     Returns ()
       ((example_world 10 20 [] [])\<lparr>stdout :=
           [Rolled ''Player 1'' 4, TurnTotal 6 ''Player 1'' 10, Prompt,
            Rolled ''Player 1'' 1, ScoresNothing ''Player 1'']\<rparr>)"
    using roll by (simp add: normalise_roll turn_loop_one example_world_def example_heap_def)
  have "example_heap 16 20 = (example_heap 10 20)(0 := (example_heap 10 20 0)\<lparr>score := 16\<rparr>)"
    by (rule ext) (simp add: example_heap_def)
  then have 2: "turn_loop 0 2 (example_world 10 20 [4, 1] ['' H '']) =
     Returns ()
       ((example_world 16 20 [1] [])\<lparr>stdout :=
           [Rolled ''Player 1'' 4, TurnTotal 6 ''Player 1'' 10, Prompt,
            Holds ''Player 1'' 16]\<rparr>)"
    using hold by (simp add: normalise_h example_world_def) (simp add: example_heap_def)
  have 3: "turn_loop 0 2 (example_world 10 20 [4, 1] [''Quit'']) =
     Raises SystemExit
       ((example_world 10 20 [1] [])\<lparr>stdout :=
           [Rolled ''Player 1'' 4, TurnTotal 6 ''Player 1'' 10, Prompt, Thanks]\<rparr>)"
    using quit by (simp add: normalise_quit example_world_def example_heap_def)
  have t: "turn_loop 0 0 (example_world 10 20 [4, 1] [''Quit'']) =
     Raises SystemExit
       ((example_world 10 20 [1] [])\<lparr>stdout :=
           [Rolled ''Player 1'' 4, TurnTotal 4 ''Player 1'' 10, Prompt, Thanks]\<rparr>)"
    using quit0 by (simp add: normalise_quit example_world_def example_heap_def)
  then have p: "play_turn (example_game 0) (example_world 10 20 [4, 1] [''Quit'']) =
     Raises SystemExit
       ((example_world 10 20 [1] [])\<lparr>stdout :=
           [Rolled ''Player 1'' 4, TurnTotal 4 ''Player 1'' 10, Prompt, Thanks]\<rparr>)"
    by (simp add: play_turn_def example_game_def)
  have n: "\<not> is_game_over (example_game 0) (example_world 10 20 [4, 1] [''Quit''])"
    by (simp add: is_game_over_def example_game_def example_world_def example_heap_def)
  have 4: "game_loop (example_game 0) (example_world 10 20 [4, 1] [''Quit'']) =
     Raises SystemExit
       ((example_world 10 20 [1] [])\<lparr>stdout :=
           [Rolled ''Player 1'' 4, TurnTotal 4 ''Player 1'' 10, Prompt, Thanks]\<rparr>)"
    using quit0 [THEN conjunct2, THEN conjunct2, THEN conjunct2, rule_format, OF p] n
    by simp
  from 1 2 3 4 show ?thesis by simp
qed

text \<open>
  The word \<open>hold\<close> does not bank: after a roll of 4 the human player answers
  \<open>hold\<close>, the die is rolled again, shows 1, and the score stays at 10.
\<close>

theorem hold_word_does_not_bank:
  "lower (strip ''hold'') = ''hold'' \<and>
   cls (heap (example_world 10 20 [4, 1] [''hold'']) 0) = HumanPlayer \<and>
   play_turn (example_game 0) (example_world 10 20 [4, 1] [''hold'']) =
     Returns (example_game 1)
       ((example_world 10 20 [] [])\<lparr>stdout :=
           [Rolled ''Player 1'' 4, TurnTotal 4 ''Player 1'' 10, Prompt,
            Rolled ''Player 1'' 1, ScoresNothing ''Player 1'']\<rparr>) \<and>
   score (heap (example_world 10 20 [] []) 0) = 10 \<and>
   score (heap (example_world 10 20 [] []) 0) \<noteq> 10 + 4"
  by (simp add: play_turn_def switch_player_def example_game_def example_world_def
        example_heap_def turn_loop_other turn_loop_one get_decision_human normalise_hold)

text \<open>
  C10. An answer of a human player that, stripped and in lower case, is none of \<open>h\<close>,
  \<open>q\<close>, \<open>quit\<close> and \<open>exit\<close> continues the turn: the loop goes on with the turn
  total kept, the store untouched and the remaining keyboard lines unread, exactly as it
  does on the answer \<open>r\<close>; nothing is raised by the answer itself, and whenever the die
  has another value the next thing written after the prompt is that roll.
\<close>

theorem unrecognised_input_continues:
  assumes "cls (heap w p) = HumanPlayer"
    and "rolls w = r # rs" and "r \<noteq> 1" and "stdin w = l # ls"
    and "lower (strip l) \<notin> {''h'', ''q'', ''quit'', ''exit''}"
  shows
   "turn_loop p t w =
      turn_loop p (t + r)
        (w\<lparr>rolls := rs, stdin := ls,
           stdout := stdout w @ [Rolled (name (heap w p)) r,
             TurnTotal (t + r) (name (heap w p)) (score (heap w p)), Prompt]\<rparr>) \<and>
    (\<forall>l'. lower (strip l') = ''r'' \<longrightarrow> turn_loop p t (w\<lparr>stdin := l' # ls\<rparr>) = turn_loop p t w) \<and>
    (rs = [] \<longrightarrow> turn_loop p t w = Starved) \<and>
    (\<forall>r' rs' u e w'.
       rs = r' # rs' \<and> (turn_loop p t w = Returns u w' \<or> turn_loop p t w = Raises e w') \<longrightarrow>
       (\<exists>evs. stdout w' =
          stdout w @ [Rolled (name (heap w p)) r,
            TurnTotal (t + r) (name (heap w p)) (score (heap w p)), Prompt,
            Rolled (name (heap w p)) r'] @ evs))"
proof -
  have human: "cls (heap w p) \<noteq> ComputerPlayer" using assms(1) by simp
  let ?w3 = "w\<lparr>rolls := rs,
      stdout := stdout w @ [Rolled (name (heap w p)) r,
         TurnTotal (t + r) (name (heap w p)) (score (heap w p))]\<rparr>"
  let ?w4 = "w\<lparr>rolls := rs, stdin := ls,
           stdout := stdout w @ [Rolled (name (heap w p)) r,
             TurnTotal (t + r) (name (heap w p)) (score (heap w p)), Prompt]\<rparr>"
  have h3: "cls (heap ?w3 p) \<noteq> ComputerPlayer" "stdin ?w3 = l # ls"
    using human assms(4) by simp_all
  have step: "turn_loop p t w = turn_loop p (t + r) ?w4"
    unfolding turn_loop_other [OF assms(2,3), of p t] get_decision_human [OF h3, of "t + r"]
    using assms(5) by auto
  have same: "turn_loop p t (w\<lparr>stdin := l' # ls\<rparr>) = turn_loop p t w"
    if l': "lower (strip l') = ''r''" for l'
  proof -
    let ?v = "w\<lparr>stdin := l' # ls\<rparr>"
    let ?v3 = "?v\<lparr>rolls := rs,
      stdout := stdout ?v @ [Rolled (name (heap ?v p)) r,
         TurnTotal (t + r) (name (heap ?v p)) (score (heap ?v p))]\<rparr>"
    have v: "rolls ?v = r # rs" using assms(2) by simp
    have v3: "cls (heap ?v3 p) \<noteq> ComputerPlayer" "stdin ?v3 = l' # ls"
      using human by simp_all
    have "turn_loop p t ?v = turn_loop p (t + r) ?w4"
      unfolding turn_loop_other [OF v assms(3), of p t] get_decision_human [OF v3, of "t + r"]
      using l' by simp
    with step show ?thesis by simp
  qed
  have starved: "turn_loop p t w = Starved" if "rs = []"
    using step that by (simp add: turn_loop_no_rolls)
  have next_roll: "\<exists>evs. stdout w' =
          stdout w @ [Rolled (name (heap w p)) r,
            TurnTotal (t + r) (name (heap w p)) (score (heap w p)), Prompt,
            Rolled (name (heap w p)) r'] @ evs"
    if "rs = r' # rs' \<and> (turn_loop p t w = Returns u w' \<or> turn_loop p t w = Raises e w')"
    for r' rs' u e w'
  proof -
    have r4: "rolls ?w4 = r' # rs'" using that by simp
    have "turn_loop p (t + r) ?w4 = Returns u w' \<or> turn_loop p (t + r) ?w4 = Raises e w'"
      using that [THEN conjunct2] unfolding step .
    from turn_loop_first_event [OF r4 this] show ?thesis by simp
  qed
  from step same starved next_roll show ?thesis by blast
qed

theorem unrecognised_input_continues_witness:
  "lower (strip ''hold'') \<notin> {''h'', ''q'', ''quit'', ''exit''} \<and>
   turn_loop 0 2 (example_world 10 20 [4, 3] [''hold'', ''h'']) =
     Returns ()
       ((example_world 19 20 [] [])\<lparr>stdout :=
           [Rolled ''Player 1'' 4, TurnTotal 6 ''Player 1'' 10, Prompt,
            Rolled ''Player 1'' 3, TurnTotal 9 ''Player 1'' 10, Prompt,
            Holds ''Player 1'' 19]\<rparr>) \<and>
   turn_loop 0 2 (example_world 10 20 [4, 3] [''r'', ''h'']) =
     turn_loop 0 2 (example_world 10 20 [4, 3] [''hold'', ''h''])"
proof -
  have pre: "cls (heap (example_world 10 20 [4, 3] ls) 0) = HumanPlayer"
    "rolls (example_world 10 20 [4, 3] ls) = 4 # [3]" "(4::int) \<noteq> 1"
    "stdin (example_world 10 20 [4, 3] [''hold'', ''h'']) = ''hold'' # [''h'']" for ls
    by (simp_all add: example_world_def example_heap_def)
  note cont = unrecognised_input_continues [OF pre normalise_other, of 2]
  have "turn_loop 0 (2 + 4)
          ((example_world 10 20 [4, 3] [''hold'', ''h''])\<lparr>rolls := [3], stdin := [''h''],
             stdout := stdout (example_world 10 20 [4, 3] [''hold'', ''h'']) @
               [Rolled (name (heap (example_world 10 20 [4, 3] [''hold'', ''h'']) 0)) 4,
                TurnTotal (2 + 4) (name (heap (example_world 10 20 [4, 3] [''hold'', ''h'']) 0))
                  (score (heap (example_world 10 20 [4, 3] [''hold'', ''h'']) 0)), Prompt]\<rparr>) =
     Returns ()
       ((example_world 19 20 [] [])\<lparr>stdout :=
           [Rolled ''Player 1'' 4, TurnTotal 6 ''Player 1'' 10, Prompt,
            Rolled ''Player 1'' 3, TurnTotal 9 ''Player 1'' 10, Prompt,
            Holds ''Player 1'' 19]\<rparr>)"
    by (simp add: example_world_def example_heap_def turn_loop_other get_decision_human
          hold_def print_def normalise_h' fun_eq_iff)
  with cont [THEN conjunct1]
  have 1: "turn_loop 0 2 (example_world 10 20 [4, 3] [''hold'', ''h'']) =
     Returns ()
       ((example_world 19 20 [] [])\<lparr>stdout :=
           [Rolled ''Player 1'' 4, TurnTotal 6 ''Player 1'' 10, Prompt,
            Rolled ''Player 1'' 3, TurnTotal 9 ''Player 1'' 10, Prompt,
            Holds ''Player 1'' 19]\<rparr>)"
    by (rule trans)
  have 2: "turn_loop 0 2 (example_world 10 20 [4, 3] [''r'', ''h'']) =
     turn_loop 0 2 (example_world 10 20 [4, 3] [''hold'', ''h''])"
    using cont [THEN conjunct2, THEN conjunct1, rule_format, OF normalise_r]
    by (simp add: example_world_def)
  from 1 2 normalise_other show ?thesis by simp
qed

section \<open>Reporting the winner\<close>

lemma max_key_first:
  "\<exists>pre post. m # xs = pre @ max_key key m xs # post \<and>
     (\<forall>x\<in>set pre. key x < key (max_key key m xs)) \<and>
     (\<forall>x\<in>set post. key x \<le> key (max_key key m xs))"
proof (induction xs arbitrary: m)
  case Nil
  show ?case by (intro exI [of _ "[]"]) simp
next
  case (Cons x xs)
  show ?case
  proof (cases "key x > key m")
    case True
    let ?r = "max_key key x xs"
    have r: "max_key key m (x # xs) = ?r" using True by simp
    from Cons.IH [of x] obtain pre post where
      split: "x # xs = pre @ ?r # post"
      and lt: "\<forall>y\<in>set pre. key y < key ?r" and le: "\<forall>y\<in>set post. key y \<le> key ?r"
      by blast
    have "x \<in> set (x # xs)" by simp
    then have "x \<in> set pre \<or> x = ?r \<or> x \<in> set post" unfolding split by auto
    then have "key x \<le> key ?r" using lt le by fastforce
    with True have "key m < key ?r" by simp
    with split lt le have "m # x # xs = (m # pre) @ ?r # post \<and>
       (\<forall>y\<in>set (m # pre). key y < key ?r) \<and> (\<forall>y\<in>set post. key y \<le> key ?r)"
      by simp
    then show ?thesis unfolding r
      by (intro exI [of _ "m # pre"] exI [of _ post])
  next
    case False
    let ?r = "max_key key m xs"
    from Cons.IH [of m] obtain pre post where
      split: "m # xs = pre @ ?r # post"
      and lt: "\<forall>y\<in>set pre. key y < key ?r" and le: "\<forall>y\<in>set post. key y \<le> key ?r"
      by blast
    have r: "max_key key m (x # xs) = ?r" using False by simp
    show ?thesis
    proof (cases pre)
      case Nil
      with split have "?r = m" "post = xs" by auto
      with le False have "m # x # xs = [] @ ?r # (x # xs) \<and>
         (\<forall>y\<in>set []. key y < key ?r) \<and> (\<forall>y\<in>set (x # xs). key y \<le> key ?r)"
        by auto
      then show ?thesis unfolding r
        by (intro exI [of _ "[]"] exI [of _ "x # xs"])
    next
      case (Cons a pre')
      with split have a: "a = m" and xs: "xs = pre' @ ?r # post" by auto
      from lt Cons a have "key m < key ?r" by simp
      with False have "key x < key ?r" by simp
      with lt le Cons a xs have "m # x # xs = (m # x # pre') @ ?r # post \<and>
         (\<forall>y\<in>set (m # x # pre'). key y < key ?r) \<and> (\<forall>y\<in>set post. key y \<le> key ?r)"
        by auto
      then show ?thesis unfolding r
        by (intro exI [of _ "m # x # pre'"] exI [of _ post])
    qed
  qed
qed

lemma fold_player_lines:
  "fold (\<lambda>player v. print (PlayerLine (name (heap v player)) (score (heap v player))) v) ps w =
     w\<lparr>stdout := stdout w @ map (\<lambda>p. PlayerLine (name (heap w p)) (score (heap w p))) ps\<rparr>"
  by (induction ps arbitrary: w) (simp_all add: print_def)

lemma report_winner_Returns:
  assumes "players g = p # ps"
  shows "report_winner g w =
     Returns ()
       (w\<lparr>stdout := stdout w @
            [Wins (name (heap w (max_key (\<lambda>q. score (heap w q)) p ps)))
               (score (heap w (max_key (\<lambda>q. score (heap w q)) p ps))), FinalScores] @
            map (\<lambda>q. PlayerLine (name (heap w q)) (score (heap w q))) (players g)\<rparr>)"
  using assms unfolding report_winner_def fold_player_lines
  by (simp add: print_def Let_def)

lemma report_winner_cases:
  "report_winner g w = Returns u w' \<Longrightarrow> players g \<noteq> []"
  by (auto simp: report_winner_def)

section \<open>The game loop\<close>

text \<open>The state after a given number of turns, played one after the other.\<close>

fun play_turns :: "nat \<Rightarrow> pig_game \<Rightarrow> world \<Rightarrow> pig_game result" where
  "play_turns 0 g w = Returns g w"
| "play_turns (Suc n) g w =
     (case play_turn g w of
        Raises e w' \<Rightarrow> Raises e w'
      | Starved \<Rightarrow> Starved
      | Returns g' w' \<Rightarrow> play_turns n g' w')"

lemma game_loop_over: "is_game_over g w \<Longrightarrow> game_loop g w = Returns g w"
  by (simp add: game_loop.simps)

lemma game_loop_step:
  "\<not> is_game_over g w \<Longrightarrow>
   game_loop g w =
     (case play_turn g w of
        Raises e w' \<Rightarrow> Raises e w'
      | Starved \<Rightarrow> Starved
      | Returns g' w' \<Rightarrow> game_loop g' w')"
  by (simp add: game_loop.simps)

lemma game_loop_turns:
  "game_loop g w = Returns g' w' \<Longrightarrow>
   \<exists>n. play_turns n g w = Returns g' w' \<and> is_game_over g' w' \<and>
       (\<forall>m<n. \<forall>g1 w1. play_turns m g w = Returns g1 w1 \<longrightarrow> \<not> is_game_over g1 w1)"
proof (induction g w rule: game_loop.induct)
  case (1 g w)
  show ?case
  proof (cases "is_game_over g w")
    case True
    with "1.prems" have "g' = g" "w' = w" by (simp_all add: game_loop_over)
    with True have "play_turns 0 g w = Returns g' w' \<and> is_game_over g' w' \<and>
       (\<forall>m<0. \<forall>g1 w1. play_turns m g w = Returns g1 w1 \<longrightarrow> \<not> is_game_over g1 w1)"
      by simp
    then show ?thesis by blast
  next
    case False
    from "1.prems" False obtain g1 w1 where
      turn: "play_turn g w = Returns g1 w1" and rest: "game_loop g1 w1 = Returns g' w'"
      by (auto simp: game_loop_step split: result.splits)
    from "1.IH" [OF False turn rest] obtain n where
      n: "play_turns n g1 w1 = Returns g' w'" "is_game_over g' w'"
      "\<forall>m<n. \<forall>g2 w2. play_turns m g1 w1 = Returns g2 w2 \<longrightarrow> \<not> is_game_over g2 w2"
      by blast
    have "play_turns (Suc n) g w = Returns g' w'"
      using turn n(1) by simp
    moreover have "\<not> is_game_over g2 w2"
      if "m < Suc n" "play_turns m g w = Returns g2 w2" for m g2 w2
    proof (cases m)
      case 0
      with that False show ?thesis by simp
    next
      case (Suc k)
      with that turn n(3) show ?thesis by simp
    qed
    ultimately show ?thesis using n(2) by blast
  qed
qed

lemma is_game_over_print [simp]: "is_game_over g (print ev w) = is_game_over g w"
  by (simp add: is_game_over_def print_def)

lemma is_game_over_players: "is_game_over g w \<Longrightarrow> players g \<noteq> []"
  by (auto simp: is_game_over_def)

lemma turns_game_loop:
  "play_turns n g w = Returns g' w' \<Longrightarrow> is_game_over g' w' \<Longrightarrow>
   (\<forall>m<n. \<forall>g3 w3. play_turns m g w = Returns g3 w3 \<longrightarrow> \<not> is_game_over g3 w3) \<Longrightarrow>
   game_loop g w = Returns g' w'"
proof (induction n arbitrary: g w)
  case 0
  then show ?case by (simp add: game_loop_over)
next
  case (Suc n)
  have "play_turns 0 g w = Returns g w" by simp
  with Suc.prems(3) have no: "\<not> is_game_over g w" by blast
  from Suc.prems(1) obtain ga wa where
    turn: "play_turn g w = Returns ga wa" and rest: "play_turns n ga wa = Returns g' w'"
    by (auto split: result.splits)
  have "\<not> is_game_over g3 w3" if "m < n" "play_turns m ga wa = Returns g3 w3" for m g3 w3
  proof -
    from that turn have "Suc m < Suc n" "play_turns (Suc m) g w = Returns g3 w3" by simp_all
    with Suc.prems(3) show ?thesis by blast
  qed
  then have "game_loop ga wa = Returns g' w'"
    using Suc.IH [OF rest Suc.prems(2)] by blast
  with no turn show ?case by (simp add: game_loop_step)
qed

lemma play_game_after_loop:
  assumes "game_loop g (print Welcome w) = Returns g' v" and "players g' = p # ps"
  shows "play_game g w =
     Returns g'
       (v\<lparr>stdout := stdout v @
            [Wins (name (heap v (max_key (\<lambda>q. score (heap v q)) p ps)))
               (score (heap v (max_key (\<lambda>q. score (heap v q)) p ps))), FinalScores] @
            map (\<lambda>q. PlayerLine (name (heap v q)) (score (heap v q))) (players g')\<rparr>)"
  using assms by (simp add: play_game_def report_winner_Returns [OF assms(2)])

lemma play_game_after_loop_fields:
  assumes "game_loop g (print Welcome w) = Returns g' v" and "is_game_over g' v"
  shows "\<exists>w'. play_game g w = Returns g' w' \<and> heap w' = heap v \<and> rolls w' = rolls v \<and>
     stdin w' = stdin v"
proof -
  from is_game_over_players [OF assms(2)] obtain p ps where "players g' = p # ps"
    by (cases "players g'") auto
  from play_game_after_loop [OF assms(1) this] show ?thesis by simp
qed

text \<open>
  C6. The loop of \<^verbatim>\<open>play_game\<close> returns at once, playing no turn, when the game is
  over; when it is not, it plays one turn and goes on from the state that turn leaves. So
  when a turn ends with the game over (a player has banked and reached 100), the loop
  returns the state of that very turn: the next player gets no turn and no further roll is
  used. Whenever the loop returns, it has played some number of turns in a row, the game
  is over after the last of them and was not over before any of them; the same holds for
  \<^verbatim>\<open>play_game\<close>, which then only reports the result. And \<^verbatim>\<open>play_game\<close> does
  return: at once, with no roll used, when the game is over at the start; with the state of
  the first turn when that turn ends the game; and in general with the state after the
  first run of turns that ends with the game over. A turn that raises makes
  \<^verbatim>\<open>play_game\<close> raise the same.
\<close>

theorem game_loop_stops_when_over:
  "(is_game_over g w \<longrightarrow> game_loop g w = Returns g w) \<and>
   (\<not> is_game_over g w \<longrightarrow>
      game_loop g w =
        (case play_turn g w of
           Raises e w' \<Rightarrow> Raises e w'
         | Starved \<Rightarrow> Starved
         | Returns g' w' \<Rightarrow> game_loop g' w')) \<and>
   (\<not> is_game_over g w \<and> play_turn g w = Returns g1 w1 \<and> is_game_over g1 w1 \<longrightarrow>
      game_loop g w = Returns g1 w1) \<and>
   (game_loop g w = Returns g2 w2 \<longrightarrow>
      (\<exists>n. play_turns n g w = Returns g2 w2 \<and> is_game_over g2 w2 \<and>
         (\<forall>m<n. \<forall>g3 w3. play_turns m g w = Returns g3 w3 \<longrightarrow> \<not> is_game_over g3 w3))) \<and>
   (play_game g w = Returns g2 w2 \<longrightarrow>
      (\<exists>n v. play_turns n g (print Welcome w) = Returns g2 v \<and> is_game_over g2 v \<and>
         heap w2 = heap v \<and> rolls w2 = rolls v \<and>
         (\<forall>m<n. \<forall>g3 w3. play_turns m g (print Welcome w) = Returns g3 w3 \<longrightarrow>
            \<not> is_game_over g3 w3))) \<and>
   (is_game_over g w \<longrightarrow>
      (\<exists>w'. play_game g w = Returns g w' \<and>
         heap w' = heap w \<and> rolls w' = rolls w \<and> stdin w' = stdin w)) \<and>
   (\<not> is_game_over g w \<and> play_turn g (print Welcome w) = Returns ga wa \<and>
    is_game_over ga wa \<longrightarrow>
      (\<exists>w'. play_game g w = Returns ga w' \<and>
         heap w' = heap wa \<and> rolls w' = rolls wa \<and> stdin w' = stdin wa)) \<and>
   (\<not> is_game_over g w \<and> play_turn g (print Welcome w) = Raises err wb \<longrightarrow>
      play_game g w = Raises err wb) \<and>
   (play_turns k g (print Welcome w) = Returns gb vb \<and> is_game_over gb vb \<and>
    (\<forall>m<k. \<forall>g3 w3. play_turns m g (print Welcome w) = Returns g3 w3 \<longrightarrow>
       \<not> is_game_over g3 w3) \<longrightarrow>
      game_loop g (print Welcome w) = Returns gb vb \<and>
      (\<exists>w'. play_game g w = Returns gb w' \<and>
         heap w' = heap vb \<and> rolls w' = rolls vb \<and> stdin w' = stdin vb))"
proof (intro conjI impI)
  show "game_loop g w = Returns g w" if "is_game_over g w"
    using that by (rule game_loop_over)
  show "game_loop g w =
        (case play_turn g w of
           Raises e w' \<Rightarrow> Raises e w'
         | Starved \<Rightarrow> Starved
         | Returns g' w' \<Rightarrow> game_loop g' w')" if "\<not> is_game_over g w"
    using that by (rule game_loop_step)
  show "game_loop g w = Returns g1 w1"
    if "\<not> is_game_over g w \<and> play_turn g w = Returns g1 w1 \<and> is_game_over g1 w1"
    using that by (simp add: game_loop_step game_loop_over)
  show "\<exists>n. play_turns n g w = Returns g2 w2 \<and> is_game_over g2 w2 \<and>
         (\<forall>m<n. \<forall>g3 w3. play_turns m g w = Returns g3 w3 \<longrightarrow> \<not> is_game_over g3 w3)"
    if "game_loop g w = Returns g2 w2"
    using that by (rule game_loop_turns)
  show "\<exists>n v. play_turns n g (print Welcome w) = Returns g2 v \<and> is_game_over g2 v \<and>
         heap w2 = heap v \<and> rolls w2 = rolls v \<and>
         (\<forall>m<n. \<forall>g3 w3. play_turns m g (print Welcome w) = Returns g3 w3 \<longrightarrow>
            \<not> is_game_over g3 w3)"
    if pg: "play_game g w = Returns g2 w2"
  proof -
    from pg obtain v where
      loop: "game_loop g (print Welcome w) = Returns g2 v"
      and rep: "report_winner g2 v = Returns () w2"
      by (auto simp: play_game_def split: result.splits)
    from report_winner_cases [OF rep] obtain p ps where "players g2 = p # ps"
      by (cases "players g2") auto
    from report_winner_Returns [OF this, of v] rep
    have "heap w2 = heap v \<and> rolls w2 = rolls v"
      by auto
    with game_loop_turns [OF loop] show ?thesis by blast
  qed
  show "\<exists>w'. play_game g w = Returns g w' \<and>
         heap w' = heap w \<and> rolls w' = rolls w \<and> stdin w' = stdin w"
    if over: "is_game_over g w"
  proof -
    have o: "is_game_over g (print Welcome w)" using over by simp
    from play_game_after_loop_fields [OF game_loop_over [OF o] o]
    show ?thesis by (simp add: print_def)
  qed
  show "\<exists>w'. play_game g w = Returns ga w' \<and>
         heap w' = heap wa \<and> rolls w' = rolls wa \<and> stdin w' = stdin wa"
    if a: "\<not> is_game_over g w \<and> play_turn g (print Welcome w) = Returns ga wa \<and>
      is_game_over ga wa"
  proof -
    from a have "game_loop g (print Welcome w) = Returns ga wa"
      by (simp add: game_loop_step game_loop_over)
    from play_game_after_loop_fields [OF this] a show ?thesis by blast
  qed
  show "play_game g w = Raises err wb"
    if "\<not> is_game_over g w \<and> play_turn g (print Welcome w) = Raises err wb"
    using that by (simp add: play_game_def game_loop_step)
  {
    assume a: "play_turns k g (print Welcome w) = Returns gb vb \<and> is_game_over gb vb \<and>
      (\<forall>m<k. \<forall>g3 w3. play_turns m g (print Welcome w) = Returns g3 w3 \<longrightarrow>
         \<not> is_game_over g3 w3)"
    then show loop: "game_loop g (print Welcome w) = Returns gb vb"
      using turns_game_loop by blast
    from play_game_after_loop_fields [OF loop] a
    show "\<exists>w'. play_game g w = Returns gb w' \<and>
         heap w' = heap vb \<and> rolls w' = rolls vb \<and> stdin w' = stdin vb"
      by blast
  }
qed

lemma example_bank_turn_welcome:
  "play_turn (example_game 1) (print Welcome (example_world 10 95 [6, 5, 5] [])) =
     Returns (example_game 0)
       ((example_world 10 101 [5, 5] [])\<lparr>stdout :=
           [Welcome, Rolled ''Player 2'' 6, TurnTotal 6 ''Player 2'' 95,
            Decides ''Player 2'' ''hold'', Holds ''Player 2'' 101]\<rparr>)"
  by (simp add: play_turn_def switch_player_def example_game_def example_world_def
        example_heap_def turn_loop_other get_decision_computer decide_def hold_def
        print_def fun_eq_iff)

lemma example_play_game:
  "play_game (example_game 1) (example_world 10 95 [6, 5, 5] []) =
     Returns (example_game 0)
       ((example_world 10 101 [5, 5] [])\<lparr>stdout :=
           [Welcome, Rolled ''Player 2'' 6, TurnTotal 6 ''Player 2'' 95,
            Decides ''Player 2'' ''hold'', Holds ''Player 2'' 101,
            Wins ''Player 2'' 101, FinalScores,
            PlayerLine ''Player 1'' 10, PlayerLine ''Player 2'' 101]\<rparr>)"
proof -
  let ?w = "print Welcome (example_world 10 95 [6, 5, 5] [])"
  let ?v = "(example_world 10 101 [5, 5] [])\<lparr>stdout :=
           [Welcome, Rolled ''Player 2'' 6, TurnTotal 6 ''Player 2'' 95,
            Decides ''Player 2'' ''hold'', Holds ''Player 2'' 101]\<rparr>"
  have n: "\<not> is_game_over (example_game 1) ?w"
    by (simp add: is_game_over_def example_game_def example_world_def example_heap_def print_def)
  have t: "play_turn (example_game 1) ?w = Returns (example_game 0) ?v"
    by (simp add: play_turn_def switch_player_def example_game_def example_world_def
          example_heap_def turn_loop_other get_decision_computer decide_def hold_def
          print_def fun_eq_iff)
  have o: "is_game_over (example_game 0) ?v"
    by (simp add: is_game_over_def example_game_def example_world_def example_heap_def print_def)
  have loop: "game_loop (example_game 1) ?w = Returns (example_game 0) ?v"
    using n t o by (simp add: game_loop_step game_loop_over)
  have pl: "players (example_game 0) = 0 # [1]" by (simp add: example_game_def)
  show ?thesis
    unfolding play_game_after_loop [OF loop pl]
    by (simp add: pl) (simp add: example_world_def example_heap_def)
qed

lemma example_play_game_over:
  "play_game (example_game 0) (example_world 100 20 [3] []) =
     Returns (example_game 0)
       ((example_world 100 20 [3] [])\<lparr>stdout :=
           [Welcome, Wins ''Player 1'' 100, FinalScores,
            PlayerLine ''Player 1'' 100, PlayerLine ''Player 2'' 20]\<rparr>)"
proof -
  let ?w = "print Welcome (example_world 100 20 [3] [])"
  have o: "is_game_over (example_game 0) ?w"
    by (simp add: is_game_over_def example_game_def example_world_def example_heap_def print_def)
  have pl: "players (example_game 0) = 0 # [1]" by (simp add: example_game_def)
  show ?thesis
    unfolding play_game_after_loop [OF game_loop_over [OF o] pl]
    by (simp add: pl) (simp add: example_world_def example_heap_def print_def)
qed

theorem game_loop_stops_when_over_witness:
  "\<not> is_game_over (example_game 1) (example_world 10 95 [6, 5, 5] []) \<and>
   play_turn (example_game 1) (example_world 10 95 [6, 5, 5] []) =
     Returns (example_game 0)
       ((example_world 10 101 [5, 5] [])\<lparr>stdout :=
           [Rolled ''Player 2'' 6, TurnTotal 6 ''Player 2'' 95,
            Decides ''Player 2'' ''hold'', Holds ''Player 2'' 101]\<rparr>) \<and>
   game_loop (example_game 1) (example_world 10 95 [6, 5, 5] []) =
     Returns (example_game 0)
       ((example_world 10 101 [5, 5] [])\<lparr>stdout :=
           [Rolled ''Player 2'' 6, TurnTotal 6 ''Player 2'' 95,
            Decides ''Player 2'' ''hold'', Holds ''Player 2'' 101]\<rparr>) \<and>
   is_game_over (example_game 0) (example_world 100 20 [3] []) \<and>
   game_loop (example_game 0) (example_world 100 20 [3] []) =
     Returns (example_game 0) (example_world 100 20 [3] []) \<and>
   play_game (example_game 1) (example_world 10 95 [6, 5, 5] []) =
     Returns (example_game 0)
       ((example_world 10 101 [5, 5] [])\<lparr>stdout :=
           [Welcome, Rolled ''Player 2'' 6, TurnTotal 6 ''Player 2'' 95,
            Decides ''Player 2'' ''hold'', Holds ''Player 2'' 101,
            Wins ''Player 2'' 101, FinalScores,
            PlayerLine ''Player 1'' 10, PlayerLine ''Player 2'' 101]\<rparr>) \<and>
   play_game (example_game 0) (example_world 100 20 [3] []) =
     Returns (example_game 0)
       ((example_world 100 20 [3] [])\<lparr>stdout :=
           [Welcome, Wins ''Player 1'' 100, FinalScores,
            PlayerLine ''Player 1'' 100, PlayerLine ''Player 2'' 20]\<rparr>) \<and>
   (\<exists>w'. play_game (example_game 0) (example_world 100 20 [3] []) =
           Returns (example_game 0) w' \<and> rolls w' = [3]) \<and>
   (\<exists>w'. play_game (example_game 1) (example_world 10 95 [6, 5, 5] []) =
           Returns (example_game 0) w' \<and> rolls w' = [5, 5])"
proof -
  let ?w = "example_world 10 95 [6, 5, 5] []"
  let ?w1 = "(example_world 10 101 [5, 5] [])\<lparr>stdout :=
           [Rolled ''Player 2'' 6, TurnTotal 6 ''Player 2'' 95,
            Decides ''Player 2'' ''hold'', Holds ''Player 2'' 101]\<rparr>"
  have n: "\<not> is_game_over (example_game 1) ?w"
    by (simp add: is_game_over_def example_game_def example_world_def example_heap_def)
  have t: "play_turn (example_game 1) ?w = Returns (example_game 0) ?w1"
    by (simp add: play_turn_def switch_player_def example_game_def example_world_def
          example_heap_def turn_loop_other get_decision_computer decide_def hold_def
          print_def fun_eq_iff)
  have o: "is_game_over (example_game 0) ?w1"
    by (simp add: is_game_over_def example_game_def example_world_def example_heap_def)
  have o2: "is_game_over (example_game 0) (example_world 100 20 [3] [])"
    by (simp add: is_game_over_def example_game_def example_world_def example_heap_def)
  note c = game_loop_stops_when_over [of "example_game 1" ?w "example_game 0" ?w1]
  note d = game_loop_stops_when_over [of "example_game 0" "example_world 100 20 [3] []"]
  from c n t o have 1: "game_loop (example_game 1) ?w = Returns (example_game 0) ?w1"
    by blast
  from d o2 have 2: "game_loop (example_game 0) (example_world 100 20 [3] []) =
     Returns (example_game 0) (example_world 100 20 [3] [])"
    by blast
  from d o2 have "\<exists>w'. play_game (example_game 0) (example_world 100 20 [3] []) =
      Returns (example_game 0) w' \<and> heap w' = heap (example_world 100 20 [3] []) \<and>
      rolls w' = rolls (example_world 100 20 [3] []) \<and>
      stdin w' = stdin (example_world 100 20 [3] [])"
    by blast
  then have 3: "\<exists>w'. play_game (example_game 0) (example_world 100 20 [3] []) =
           Returns (example_game 0) w' \<and> rolls w' = [3]"
    by (auto simp: example_world_def)
  let ?v = "(example_world 10 101 [5, 5] [])\<lparr>stdout :=
           [Welcome, Rolled ''Player 2'' 6, TurnTotal 6 ''Player 2'' 95,
            Decides ''Player 2'' ''hold'', Holds ''Player 2'' 101]\<rparr>"
  have ov: "is_game_over (example_game 0) ?v"
    by (simp add: is_game_over_def example_game_def example_world_def example_heap_def)
  from game_loop_stops_when_over [where g = "example_game 1" and w = ?w
      and ga = "example_game 0" and wa = ?v] n example_bank_turn_welcome ov
  have "\<exists>w'. play_game (example_game 1) ?w = Returns (example_game 0) w' \<and>
      heap w' = heap ?v \<and> rolls w' = rolls ?v \<and> stdin w' = stdin ?v"
    by blast
  then have 4: "\<exists>w'. play_game (example_game 1) ?w = Returns (example_game 0) w' \<and>
      rolls w' = [5, 5]"
    by (auto simp: example_world_def)
  from n t 1 o2 2 3 4 example_play_game example_play_game_over show ?thesis by blast
qed

section \<open>The timed game and the winner\<close>

lemma timed_loop_over: "is_game_over g w \<Longrightarrow> timed_loop limit start_time g w = Returns g w"
  by (simp add: timed_loop.simps)

lemma timed_loop_time_up:
  assumes "\<not> is_game_over g w" and "clock w = c # cs" and "c - start_time > limit"
  shows "timed_loop limit start_time g w =
     Returns g (w\<lparr>clock := cs,
                  stdout := stdout w @ [TimesUp (int_of_float (c - start_time))]\<rparr>)"
  using assms by (simp add: timed_loop.simps time_def print_def)

lemma timed_loop_in_time:
  assumes "\<not> is_game_over g w" and "clock w = c # cs" and "\<not> c - start_time > limit"
  shows "timed_loop limit start_time g w =
     (case play_turn g (w\<lparr>clock := cs\<rparr>) of
        Raises e w' \<Rightarrow> Raises e w'
      | Starved \<Rightarrow> Starved
      | Returns g' w' \<Rightarrow> timed_loop limit start_time g' w')"
  using assms by (simp add: timed_loop.simps time_def)

lemma report_winner_first_max:
  assumes "report_winner g v = Returns u w'"
  shows "\<exists>pre win post. players g = pre @ win # post \<and>
     (\<forall>x\<in>set pre. score (heap w' x) < score (heap w' win)) \<and>
     (\<forall>x\<in>set post. score (heap w' x) \<le> score (heap w' win)) \<and>
     heap w' = heap v \<and> rolls w' = rolls v \<and>
     stdout w' = stdout v @
       [Wins (name (heap w' win)) (score (heap w' win)), FinalScores] @
       map (\<lambda>q. PlayerLine (name (heap w' q)) (score (heap w' q))) (players g)"
proof -
  from report_winner_cases [OF assms] obtain p ps where ps: "players g = p # ps"
    by (cases "players g") auto
  let ?win = "max_key (\<lambda>q. score (heap v q)) p ps"
  from report_winner_Returns [OF ps, of v] assms
  have w': "w' = v\<lparr>stdout := stdout v @
            [Wins (name (heap v ?win)) (score (heap v ?win)), FinalScores] @
            map (\<lambda>q. PlayerLine (name (heap v q)) (score (heap v q))) (players g)\<rparr>"
    by simp
  from max_key_first [of p ps "\<lambda>q. score (heap v q)"] obtain pre post where
    "p # ps = pre @ ?win # post"
    "\<forall>x\<in>set pre. score (heap v x) < score (heap v ?win)"
    "\<forall>x\<in>set post. score (heap v x) \<le> score (heap v ?win)"
    by blast
  with ps w' show ?thesis
    by (intro exI [of _ pre] exI [of _ ?win] exI [of _ post]) simp
qed

text \<open>
  C5. In the timed loop, when the game is not over and the clock, read before the next
  turn, is more than the time limit past the start, the loop returns at once: the game,
  the store, the die and the keyboard are as they were, and only the time-up message is
  written, so no further turn is played; when the clock is not past the limit, one turn is
  played and the loop goes on. The start is the first reading of the clock in
  \<^verbatim>\<open>TimedGameProxy.play_game\<close>. The winner reported, by \<^verbatim>\<open>play_game\<close> and
  by the timed game alike, is found from the scores alone, whether or not any of them has
  reached 100: it is the first player of the list whose score no other player exceeds
  (every player before it has a strictly smaller score, every player after it a smaller
  or equal one); with two players the second wins only with a strictly greater score.
  Both games do report it: \<^verbatim>\<open>play_game\<close> whenever its loop has returned, and the
  timed game at the first check past the limit.
\<close>

theorem time_up_and_winner:
  "(\<not> is_game_over g w \<and> clock w = c # cs \<and> c - start_time > limit \<longrightarrow>
      timed_loop limit start_time g w =
        Returns g (w\<lparr>clock := cs,
                     stdout := stdout w @ [TimesUp (int_of_float (c - start_time))]\<rparr>)) \<and>
   (players g = [a, b] \<longrightarrow>
      report_winner g w =
        Returns ()
          (w\<lparr>stdout := stdout w @
             [if score (heap w b) > score (heap w a)
              then Wins (name (heap w b)) (score (heap w b))
              else Wins (name (heap w a)) (score (heap w a)),
              FinalScores,
              PlayerLine (name (heap w a)) (score (heap w a)),
              PlayerLine (name (heap w b)) (score (heap w b))]\<rparr>)) \<and>
   (play_game g w = Returns g' w' \<or>
    (timed_play_game \<lparr>game = g, time_limit = limit\<rparr> w = Returns self' w' \<and> game self' = g') \<longrightarrow>
      (\<exists>pre win post evs. players g' = pre @ win # post \<and>
         (\<forall>x\<in>set pre. score (heap w' x) < score (heap w' win)) \<and>
         (\<forall>x\<in>set post. score (heap w' x) \<le> score (heap w' win)) \<and>
         stdout w' = evs @
           [Wins (name (heap w' win)) (score (heap w' win)), FinalScores] @
           map (\<lambda>q. PlayerLine (name (heap w' q)) (score (heap w' q))) (players g'))) \<and>
   (game_loop g (print Welcome w) = Returns gl vl \<and> players gl = [a, b] \<longrightarrow>
      play_game g w =
        Returns gl
          (vl\<lparr>stdout := stdout vl @
             [if score (heap vl b) > score (heap vl a)
              then Wins (name (heap vl b)) (score (heap vl b))
              else Wins (name (heap vl a)) (score (heap vl a)),
              FinalScores,
              PlayerLine (name (heap vl a)) (score (heap vl a)),
              PlayerLine (name (heap vl b)) (score (heap vl b))]\<rparr>)) \<and>
   (is_game_over g w \<and> players g = [a, b] \<longrightarrow>
      play_game g w =
        Returns g
          (w\<lparr>stdout := stdout w @
             [Welcome,
              if score (heap w b) > score (heap w a)
              then Wins (name (heap w b)) (score (heap w b))
              else Wins (name (heap w a)) (score (heap w a)),
              FinalScores,
              PlayerLine (name (heap w a)) (score (heap w a)),
              PlayerLine (name (heap w b)) (score (heap w b))]\<rparr>)) \<and>
   (\<not> is_game_over g w \<and> clock w = c # cs \<and> \<not> c - start_time > limit \<longrightarrow>
      timed_loop limit start_time g w =
        (case play_turn g (w\<lparr>clock := cs\<rparr>) of
           Raises e v \<Rightarrow> Raises e v
         | Starved \<Rightarrow> Starved
         | Returns gt vt \<Rightarrow> timed_loop limit start_time gt vt)) \<and>
   (clock w = first # rest \<longrightarrow>
      timed_play_game \<lparr>game = g, time_limit = limit\<rparr> w =
        (case timed_loop limit first g (w\<lparr>clock := rest, stdout := stdout w @ [StartingTimed]\<rparr>) of
           Raises e v \<Rightarrow> Raises e v
         | Starved \<Rightarrow> Starved
         | Returns gt vt \<Rightarrow>
             (case report_winner gt vt of
                Raises e v \<Rightarrow> Raises e v
              | Starved \<Rightarrow> Starved
              | Returns u v \<Rightarrow> Returns \<lparr>game = gt, time_limit = limit\<rparr> v))) \<and>
   (\<not> is_game_over g w \<and> clock w = first # c # cs \<and> c - first > limit \<and> players g = [a, b] \<longrightarrow>
      timed_play_game \<lparr>game = g, time_limit = limit\<rparr> w =
        Returns \<lparr>game = g, time_limit = limit\<rparr>
          (w\<lparr>clock := cs,
             stdout := stdout w @
             [StartingTimed, TimesUp (int_of_float (c - first)),
              if score (heap w b) > score (heap w a)
              then Wins (name (heap w b)) (score (heap w b))
              else Wins (name (heap w a)) (score (heap w a)),
              FinalScores,
              PlayerLine (name (heap w a)) (score (heap w a)),
              PlayerLine (name (heap w b)) (score (heap w b))]\<rparr>))"
proof (intro conjI impI)
  show "timed_loop limit start_time g w =
        Returns g (w\<lparr>clock := cs,
                     stdout := stdout w @ [TimesUp (int_of_float (c - start_time))]\<rparr>)"
    if "\<not> is_game_over g w \<and> clock w = c # cs \<and> c - start_time > limit"
    using that by (simp add: timed_loop_time_up)
  show "report_winner g w =
        Returns ()
          (w\<lparr>stdout := stdout w @
             [if score (heap w b) > score (heap w a)
              then Wins (name (heap w b)) (score (heap w b))
              else Wins (name (heap w a)) (score (heap w a)),
              FinalScores,
              PlayerLine (name (heap w a)) (score (heap w a)),
              PlayerLine (name (heap w b)) (score (heap w b))]\<rparr>)"
    if "players g = [a, b]"
    using that by (simp add: report_winner_Returns)
  show "\<exists>pre win post evs. players g' = pre @ win # post \<and>
         (\<forall>x\<in>set pre. score (heap w' x) < score (heap w' win)) \<and>
         (\<forall>x\<in>set post. score (heap w' x) \<le> score (heap w' win)) \<and>
         stdout w' = evs @
           [Wins (name (heap w' win)) (score (heap w' win)), FinalScores] @
           map (\<lambda>q. PlayerLine (name (heap w' q)) (score (heap w' q))) (players g')"
    if a: "play_game g w = Returns g' w' \<or>
      (timed_play_game \<lparr>game = g, time_limit = limit\<rparr> w = Returns self' w' \<and> game self' = g')"
  proof -
    from a have "\<exists>v. report_winner g' v = Returns () w'"
    proof
      assume "play_game g w = Returns g' w'"
      then show ?thesis
        by (auto simp: play_game_def split: result.splits)
    next
      assume "timed_play_game \<lparr>game = g, time_limit = limit\<rparr> w = Returns self' w' \<and> game self' = g'"
      then have t: "timed_play_game \<lparr>game = g, time_limit = limit\<rparr> w = Returns self' w'"
        and s: "game self' = g'" by simp_all
      from t obtain first w0 g1 v where
        "report_winner g1 v = Returns () w'" "self' = \<lparr>game = g1, time_limit = limit\<rparr>"
        by (auto simp: timed_play_game_def split: option.splits result.splits)
      with s have "report_winner g' v = Returns () w'" by simp
      then show ?thesis ..
    qed
    then obtain v where "report_winner g' v = Returns () w'" by blast
    from report_winner_first_max [OF this] show ?thesis by blast
  qed
  show "play_game g w =
        Returns gl
          (vl\<lparr>stdout := stdout vl @
             [if score (heap vl b) > score (heap vl a)
              then Wins (name (heap vl b)) (score (heap vl b))
              else Wins (name (heap vl a)) (score (heap vl a)),
              FinalScores,
              PlayerLine (name (heap vl a)) (score (heap vl a)),
              PlayerLine (name (heap vl b)) (score (heap vl b))]\<rparr>)"
    if a: "game_loop g (print Welcome w) = Returns gl vl \<and> players gl = [a, b]"
  proof -
    from a have pl: "players gl = a # [b]" by simp
    show ?thesis
      unfolding play_game_after_loop [OF a [THEN conjunct1] pl] by (simp add: pl)
  qed
  show "play_game g w =
        Returns g
          (w\<lparr>stdout := stdout w @
             [Welcome,
              if score (heap w b) > score (heap w a)
              then Wins (name (heap w b)) (score (heap w b))
              else Wins (name (heap w a)) (score (heap w a)),
              FinalScores,
              PlayerLine (name (heap w a)) (score (heap w a)),
              PlayerLine (name (heap w b)) (score (heap w b))]\<rparr>)"
    if a: "is_game_over g w \<and> players g = [a, b]"
  proof -
    from a have pl: "players g = a # [b]" by simp
    from a have o: "is_game_over g (print Welcome w)" by simp
    show ?thesis
      unfolding play_game_after_loop [OF game_loop_over [OF o] pl]
      by (simp add: pl print_def)
  qed
  show "timed_loop limit start_time g w =
        (case play_turn g (w\<lparr>clock := cs\<rparr>) of
           Raises e v \<Rightarrow> Raises e v
         | Starved \<Rightarrow> Starved
         | Returns gt vt \<Rightarrow> timed_loop limit start_time gt vt)"
    if "\<not> is_game_over g w \<and> clock w = c # cs \<and> \<not> c - start_time > limit"
    using that by (simp add: timed_loop_in_time)
  show unf: "timed_play_game \<lparr>game = g, time_limit = limit\<rparr> w =
        (case timed_loop limit first g (w\<lparr>clock := rest, stdout := stdout w @ [StartingTimed]\<rparr>) of
           Raises e v \<Rightarrow> Raises e v
         | Starved \<Rightarrow> Starved
         | Returns gt vt \<Rightarrow>
             (case report_winner gt vt of
                Raises e v \<Rightarrow> Raises e v
              | Starved \<Rightarrow> Starved
              | Returns u v \<Rightarrow> Returns \<lparr>game = gt, time_limit = limit\<rparr> v))"
    if "clock w = first # rest" for first rest
    using that by (simp add: timed_play_game_def time_def print_def split: result.splits)
  show "timed_play_game \<lparr>game = g, time_limit = limit\<rparr> w =
        Returns \<lparr>game = g, time_limit = limit\<rparr>
          (w\<lparr>clock := cs,
             stdout := stdout w @
             [StartingTimed, TimesUp (int_of_float (c - first)),
              if score (heap w b) > score (heap w a)
              then Wins (name (heap w b)) (score (heap w b))
              else Wins (name (heap w a)) (score (heap w a)),
              FinalScores,
              PlayerLine (name (heap w a)) (score (heap w a)),
              PlayerLine (name (heap w b)) (score (heap w b))]\<rparr>)"
    if a: "\<not> is_game_over g w \<and> clock w = first # c # cs \<and> c - first > limit \<and> players g = [a, b]"
  proof -
    let ?w0 = "w\<lparr>clock := c # cs, stdout := stdout w @ [StartingTimed]\<rparr>"
    from a have pl: "players g = a # [b]" by simp
    have n: "\<not> is_game_over g ?w0" using a by (auto simp: is_game_over_def)
    have cl: "clock ?w0 = c # cs" by simp
    from a have late: "c - first > limit" by simp
    have "clock w = first # (c # cs)" using a by simp
    from unf [OF this] show ?thesis
      by (simp add: timed_loop_time_up [OF n cl late] report_winner_Returns [OF pl] pl)
  qed
qed

theorem time_up_and_winner_witness:
  "\<not> is_game_over (example_game 0) ((example_world 10 20 [3] [])\<lparr>clock := [61]\<rparr>) \<and>
   (61::real) - 0 > 60 \<and>
   timed_loop 60 0 (example_game 0) ((example_world 10 20 [3] [])\<lparr>clock := [61]\<rparr>) =
     Returns (example_game 0) ((example_world 10 20 [3] [])\<lparr>stdout := [TimesUp 61]\<rparr>) \<and>
   report_winner (example_game 0) (example_world 20 20 [] []) =
     Returns ()
       ((example_world 20 20 [] [])\<lparr>stdout :=
          [Wins ''Player 1'' 20, FinalScores,
           PlayerLine ''Player 1'' 20, PlayerLine ''Player 2'' 20]\<rparr>) \<and>
   timed_play_game \<lparr>game = example_game 0, time_limit = 60\<rparr>
       ((example_world 10 20 [3] [])\<lparr>clock := [0, 61]\<rparr>) =
     Returns \<lparr>game = example_game 0, time_limit = 60\<rparr>
       ((example_world 10 20 [3] [])\<lparr>stdout :=
          [StartingTimed, TimesUp 61, Wins ''Player 2'' 20, FinalScores,
           PlayerLine ''Player 1'' 10, PlayerLine ''Player 2'' 20]\<rparr>) \<and>
   (\<exists>pre win post evs. players (example_game 0) = pre @ win # post \<and>
      (\<forall>x\<in>set pre. score (example_heap 10 20 x) < score (example_heap 10 20 win)) \<and>
      (\<forall>x\<in>set post. score (example_heap 10 20 x) \<le> score (example_heap 10 20 win)) \<and>
      [StartingTimed, TimesUp 61, Wins ''Player 2'' 20, FinalScores,
       PlayerLine ''Player 1'' 10, PlayerLine ''Player 2'' 20] =
        evs @ [Wins (name (example_heap 10 20 win)) (score (example_heap 10 20 win)), FinalScores] @
          map (\<lambda>q. PlayerLine (name (example_heap 10 20 q)) (score (example_heap 10 20 q)))
            (players (example_game 0))) \<and>
   play_game (example_game 0) (example_world 100 100 [] []) =
     Returns (example_game 0)
       ((example_world 100 100 [] [])\<lparr>stdout :=
          [Welcome, Wins ''Player 1'' 100, FinalScores,
           PlayerLine ''Player 1'' 100, PlayerLine ''Player 2'' 100]\<rparr>) \<and>
   play_game (example_game 1) (example_world 10 95 [6, 5, 5] []) =
     Returns (example_game 0)
       ((example_world 10 101 [5, 5] [])\<lparr>stdout :=
           [Welcome, Rolled ''Player 2'' 6, TurnTotal 6 ''Player 2'' 95,
            Decides ''Player 2'' ''hold'', Holds ''Player 2'' 101,
            Wins ''Player 2'' 101, FinalScores,
            PlayerLine ''Player 1'' 10, PlayerLine ''Player 2'' 101]\<rparr>) \<and>
   timed_play_game \<lparr>game = example_game 0, time_limit = 60\<rparr>
       ((example_world 10 20 [3] [])\<lparr>clock := [1000, 1061]\<rparr>) =
     Returns \<lparr>game = example_game 0, time_limit = 60\<rparr>
       ((example_world 10 20 [3] [])\<lparr>stdout :=
          [StartingTimed, TimesUp 61, Wins ''Player 2'' 20, FinalScores,
           PlayerLine ''Player 1'' 10, PlayerLine ''Player 2'' 20]\<rparr>) \<and>
   timed_play_game \<lparr>game = example_game 0, time_limit = 60\<rparr>
       ((example_world 10 20 [1, 3] [])\<lparr>clock := [1000, 1030, 1061]\<rparr>) =
     Returns \<lparr>game = example_game 1, time_limit = 60\<rparr>
       ((example_world 10 20 [3] [])\<lparr>stdout :=
          [StartingTimed, Rolled ''Player 1'' 1, ScoresNothing ''Player 1'', TimesUp 61,
           Wins ''Player 2'' 20, FinalScores,
           PlayerLine ''Player 1'' 10, PlayerLine ''Player 2'' 20]\<rparr>)"
proof -
  let ?w = "(example_world 10 20 [3] [])\<lparr>clock := [61]\<rparr>"
  have n: "\<not> is_game_over (example_game 0) ?w"
    by (simp add: is_game_over_def example_game_def example_world_def example_heap_def)
  have c: "clock ?w = 61 # []" "(61::real) - 0 > 60" by simp_all
  have i: "int_of_float 61 = 61" by (simp add: int_of_float_def)
  from time_up_and_winner [where g = "example_game 0" and w = ?w and c = 61 and cs = "[]"
      and start_time = 0 and limit = 60] n c
  have "timed_loop 60 0 (example_game 0) ?w =
     Returns (example_game 0)
       (?w\<lparr>clock := [], stdout := stdout ?w @ [TimesUp (int_of_float (61 - 0))]\<rparr>)"
    by blast
  then have 1: "timed_loop 60 0 (example_game 0) ?w =
     Returns (example_game 0) ((example_world 10 20 [3] [])\<lparr>stdout := [TimesUp 61]\<rparr>)"
    by (simp add: i example_world_def)
  have pl: "players (example_game 0) = [0, 1]" by (simp add: example_game_def)
  from time_up_and_winner [where g = "example_game 0" and w = "example_world 20 20 [] []"
      and a = 0 and b = 1] pl
  have "report_winner (example_game 0) (example_world 20 20 [] []) =
        Returns ()
          ((example_world 20 20 [] [])\<lparr>stdout := stdout (example_world 20 20 [] []) @
             [if score (heap (example_world 20 20 [] []) 1) > score (heap (example_world 20 20 [] []) 0)
              then Wins (name (heap (example_world 20 20 [] []) 1)) (score (heap (example_world 20 20 [] []) 1))
              else Wins (name (heap (example_world 20 20 [] []) 0)) (score (heap (example_world 20 20 [] []) 0)),
              FinalScores,
              PlayerLine (name (heap (example_world 20 20 [] []) 0)) (score (heap (example_world 20 20 [] []) 0)),
              PlayerLine (name (heap (example_world 20 20 [] []) 1)) (score (heap (example_world 20 20 [] []) 1))]\<rparr>)"
    by blast
  then have 2: "report_winner (example_game 0) (example_world 20 20 [] []) =
     Returns ()
       ((example_world 20 20 [] [])\<lparr>stdout :=
          [Wins ''Player 1'' 20, FinalScores,
           PlayerLine ''Player 1'' 20, PlayerLine ''Player 2'' 20]\<rparr>)"
    by (simp add: example_world_def example_heap_def)
  let ?v = "(example_world 10 20 [3] [])\<lparr>clock := [0, 61]\<rparr>"
  let ?out = "[StartingTimed, TimesUp 61, Wins ''Player 2'' 20, FinalScores,
           PlayerLine ''Player 1'' 10, PlayerLine ''Player 2'' 20]"
  have n2: "\<not> is_game_over (example_game 0)
      (print StartingTimed ((example_world 10 20 [3] [])\<lparr>clock := [61]\<rparr>))"
    by (simp add: is_game_over_def example_game_def example_world_def example_heap_def print_def)
  have tm: "time ?v = Some (0, ?w)"
    by (simp add: time_def example_world_def)
  have "clock (print StartingTimed ?w) = 61 # []" by (simp add: print_def)
  from timed_loop_time_up [OF n2 this, where start_time = 0 and limit = 60]
  have tl: "timed_loop 60 0 (example_game 0) (print StartingTimed ?w) =
     Returns (example_game 0)
       ((example_world 10 20 [3] [])\<lparr>stdout := [StartingTimed, TimesUp 61]\<rparr>)"
    by (simp add: i print_def example_world_def)
  have rw: "report_winner (example_game 0)
       ((example_world 10 20 [3] [])\<lparr>stdout := [StartingTimed, TimesUp 61]\<rparr>) =
     Returns () ((example_world 10 20 [3] [])\<lparr>stdout := ?out\<rparr>)"
    by (simp add: report_winner_Returns [OF pl] pl) (simp add: example_world_def example_heap_def)
  have 3: "timed_play_game \<lparr>game = example_game 0, time_limit = 60\<rparr> ?v =
     Returns \<lparr>game = example_game 0, time_limit = 60\<rparr>
       ((example_world 10 20 [3] [])\<lparr>stdout := ?out\<rparr>)"
    by (simp add: timed_play_game_def tm tl rw)
  from time_up_and_winner [where g = "example_game 0" and w = ?v and g' = "example_game 0"
      and w' = "(example_world 10 20 [3] [])\<lparr>stdout := ?out\<rparr>" and limit = 60
      and self' = "\<lparr>game = example_game 0, time_limit = 60\<rparr>"] 3
  have 4: "\<exists>pre win post evs. players (example_game 0) = pre @ win # post \<and>
      (\<forall>x\<in>set pre. score (example_heap 10 20 x) < score (example_heap 10 20 win)) \<and>
      (\<forall>x\<in>set post. score (example_heap 10 20 x) \<le> score (example_heap 10 20 win)) \<and>
      ?out =
        evs @ [Wins (name (example_heap 10 20 win)) (score (example_heap 10 20 win)), FinalScores] @
          map (\<lambda>q. PlayerLine (name (example_heap 10 20 q)) (score (example_heap 10 20 q)))
            (players (example_game 0))"
    by (simp add: example_world_def)
  have o5: "is_game_over (example_game 0) (example_world 100 100 [] [])"
    by (simp add: is_game_over_def example_game_def example_world_def example_heap_def)
  from time_up_and_winner [where g = "example_game 0" and w = "example_world 100 100 [] []"
      and a = 0 and b = 1] o5 pl
  have "play_game (example_game 0) (example_world 100 100 [] []) =
        Returns (example_game 0)
          ((example_world 100 100 [] [])\<lparr>stdout := stdout (example_world 100 100 [] []) @
             [Welcome,
              if score (heap (example_world 100 100 [] []) 1) > score (heap (example_world 100 100 [] []) 0)
              then Wins (name (heap (example_world 100 100 [] []) 1)) (score (heap (example_world 100 100 [] []) 1))
              else Wins (name (heap (example_world 100 100 [] []) 0)) (score (heap (example_world 100 100 [] []) 0)),
              FinalScores,
              PlayerLine (name (heap (example_world 100 100 [] []) 0)) (score (heap (example_world 100 100 [] []) 0)),
              PlayerLine (name (heap (example_world 100 100 [] []) 1)) (score (heap (example_world 100 100 [] []) 1))]\<rparr>)"
    by blast
  then have 5: "play_game (example_game 0) (example_world 100 100 [] []) =
     Returns (example_game 0)
       ((example_world 100 100 [] [])\<lparr>stdout :=
          [Welcome, Wins ''Player 1'' 100, FinalScores,
           PlayerLine ''Player 1'' 100, PlayerLine ''Player 2'' 100]\<rparr>)"
    by (simp add: example_world_def example_heap_def)
  let ?u = "(example_world 10 20 [3] [])\<lparr>clock := [1000, 1061]\<rparr>"
  have nu: "\<not> is_game_over (example_game 0) ?u"
    by (simp add: is_game_over_def example_game_def example_world_def example_heap_def)
  have cu: "clock ?u = 1000 # 1061 # []" "(1061::real) - 1000 > 60" by simp_all
  from time_up_and_winner [where g = "example_game 0" and w = ?u and first = 1000 and c = 1061
      and cs = "[]" and limit = 60 and a = 0 and b = 1] nu cu pl
  have "timed_play_game \<lparr>game = example_game 0, time_limit = 60\<rparr> ?u =
        Returns \<lparr>game = example_game 0, time_limit = 60\<rparr>
          (?u\<lparr>clock := [],
             stdout := stdout ?u @
             [StartingTimed, TimesUp (int_of_float (1061 - 1000)),
              if score (heap ?u 1) > score (heap ?u 0)
              then Wins (name (heap ?u 1)) (score (heap ?u 1))
              else Wins (name (heap ?u 0)) (score (heap ?u 0)),
              FinalScores,
              PlayerLine (name (heap ?u 0)) (score (heap ?u 0)),
              PlayerLine (name (heap ?u 1)) (score (heap ?u 1))]\<rparr>)"
    by blast
  then have 6: "timed_play_game \<lparr>game = example_game 0, time_limit = 60\<rparr> ?u =
     Returns \<lparr>game = example_game 0, time_limit = 60\<rparr>
       ((example_world 10 20 [3] [])\<lparr>stdout :=
          [StartingTimed, TimesUp 61, Wins ''Player 2'' 20, FinalScores,
           PlayerLine ''Player 1'' 10, PlayerLine ''Player 2'' 20]\<rparr>)"
    by (simp add: i example_world_def example_heap_def)
  let ?t0 = "(example_world 10 20 [1, 3] [])\<lparr>clock := [1000, 1030, 1061]\<rparr>"
  let ?t1 = "(example_world 10 20 [1, 3] [])\<lparr>clock := [1030, 1061], stdout := [StartingTimed]\<rparr>"
  let ?t2 = "(example_world 10 20 [3] [])\<lparr>clock := [1061],
      stdout := [StartingTimed, Rolled ''Player 1'' 1, ScoresNothing ''Player 1'']\<rparr>"
  have n1: "\<not> is_game_over (example_game 0) ?t1" "\<not> is_game_over (example_game 1) ?t2"
    by (simp_all add: is_game_over_def example_game_def example_world_def example_heap_def)
  have c1: "clock ?t1 = 1030 # [1061]" "\<not> (1030::real) - 1000 > 60"
    "clock ?t2 = 1061 # []" "(1061::real) - 1000 > 60"
    by simp_all
  have turn: "play_turn (example_game 0) (?t1\<lparr>clock := [1061]\<rparr>) = Returns (example_game 1) ?t2"
    by (simp add: play_turn_def switch_player_def example_game_def example_world_def
          example_heap_def turn_loop_one)
  from time_up_and_winner [where g = "example_game 0" and w = ?t1 and c = 1030
      and cs = "[1061]" and start_time = 1000 and limit = 60] n1(1) c1(1,2)
  have "timed_loop 60 1000 (example_game 0) ?t1 =
        (case play_turn (example_game 0) (?t1\<lparr>clock := [1061]\<rparr>) of
           Raises e v \<Rightarrow> Raises e v
         | Starved \<Rightarrow> Starved
         | Returns gt vt \<Rightarrow> timed_loop 60 1000 gt vt)"
    by blast
  then have l1: "timed_loop 60 1000 (example_game 0) ?t1 = timed_loop 60 1000 (example_game 1) ?t2"
    unfolding turn by simp
  from time_up_and_winner [where g = "example_game 1" and w = ?t2 and c = 1061
      and cs = "[]" and start_time = 1000 and limit = 60] n1(2) c1(3,4)
  have "timed_loop 60 1000 (example_game 1) ?t2 =
     Returns (example_game 1)
       (?t2\<lparr>clock := [], stdout := stdout ?t2 @ [TimesUp (int_of_float (1061 - 1000))]\<rparr>)"
    by blast
  with l1 have l2: "timed_loop 60 1000 (example_game 0) ?t1 =
     Returns (example_game 1)
       ((example_world 10 20 [3] [])\<lparr>stdout :=
          [StartingTimed, Rolled ''Player 1'' 1, ScoresNothing ''Player 1'', TimesUp 61]\<rparr>)"
    by (simp add: i example_world_def)
  have pl1: "players (example_game 1) = [0, 1]" by (simp add: example_game_def)
  have rw2: "report_winner (example_game 1)
       ((example_world 10 20 [3] [])\<lparr>stdout :=
          [StartingTimed, Rolled ''Player 1'' 1, ScoresNothing ''Player 1'', TimesUp 61]\<rparr>) =
     Returns ()
       ((example_world 10 20 [3] [])\<lparr>stdout :=
          [StartingTimed, Rolled ''Player 1'' 1, ScoresNothing ''Player 1'', TimesUp 61,
           Wins ''Player 2'' 20, FinalScores,
           PlayerLine ''Player 1'' 10, PlayerLine ''Player 2'' 20]\<rparr>)"
    unfolding report_winner_Returns [OF pl1] pl1
    by (simp add: example_world_def example_heap_def)
  have ct: "clock ?t0 = 1000 # [1030, 1061]" by simp
  have t1: "?t0\<lparr>clock := [1030, 1061], stdout := stdout ?t0 @ [StartingTimed]\<rparr> = ?t1"
    by (simp add: example_world_def)
  from time_up_and_winner [where g = "example_game 0" and w = ?t0 and first = 1000
      and rest = "[1030, 1061]" and limit = 60] ct
  have "timed_play_game \<lparr>game = example_game 0, time_limit = 60\<rparr> ?t0 =
        (case timed_loop 60 1000 (example_game 0)
                (?t0\<lparr>clock := [1030, 1061], stdout := stdout ?t0 @ [StartingTimed]\<rparr>) of
           Raises e v \<Rightarrow> Raises e v
         | Starved \<Rightarrow> Starved
         | Returns gt vt \<Rightarrow>
             (case report_winner gt vt of
                Raises e v \<Rightarrow> Raises e v
              | Starved \<Rightarrow> Starved
              | Returns u v \<Rightarrow> Returns \<lparr>game = gt, time_limit = 60\<rparr> v))"
    by blast
  then have 7: "timed_play_game \<lparr>game = example_game 0, time_limit = 60\<rparr> ?t0 =
     Returns \<lparr>game = example_game 1, time_limit = 60\<rparr>
       ((example_world 10 20 [3] [])\<lparr>stdout :=
          [StartingTimed, Rolled ''Player 1'' 1, ScoresNothing ''Player 1'', TimesUp 61,
           Wins ''Player 2'' 20, FinalScores,
           PlayerLine ''Player 1'' 10, PlayerLine ''Player 2'' 20]\<rparr>)"
    unfolding t1 l2 result.case rw2 by simp
  from n c 1 2 3 4 5 6 7 example_play_game show ?thesis by blast
qed

section \<open>The scores\<close>

lemma sum_list_rolls_nonneg:
  "\<forall>r\<in>set rs. (1::int) \<le> r \<Longrightarrow> 0 \<le> sum_list rs"
  by (induction rs) auto

lemma turn_loop_heap:
  assumes valid: "\<forall>r\<in>set (rolls w). 1 \<le> r" and t: "0 \<le> t"
    and run: "turn_loop p t w = Returns u w'"
  shows "heap w' = heap w \<or>
     (\<exists>k evs. 0 < k \<and>
        heap w' = (heap w)(p := (heap w p)\<lparr>score := score (heap w p) + k\<rparr>) \<and>
        stdout w' = stdout w @ evs @ [Holds (name (heap w p)) (score (heap w p) + k)])"
    and "set (rolls w') \<subseteq> set (rolls w)"
proof -
  from turn_loop_Returns [OF refl run] obtain pre r evs where
    split: "rolls w = pre @ r # rolls w'"
    and fin: "if r = 1
       then heap w' = heap w \<and>
            stdout w' = stdout w @ evs @ [Rolled (name (heap w p)) 1, ScoresNothing (name (heap w p))]
       else heap w' = (heap w)(p := (heap w p)\<lparr>score := score (heap w p) + (t + sum_list pre + r)\<rparr>) \<and>
            stdout w' = stdout w @ evs @
              [Holds (name (heap w p)) (score (heap w p) + (t + sum_list pre + r))]"
    by blast
  note sets = arg_cong [OF split, of set]
  show "set (rolls w') \<subseteq> set (rolls w)"
    using sets by auto
  have "\<forall>x\<in>set pre. 1 \<le> x" "1 \<le> r"
    using valid sets by auto
  then have "0 \<le> sum_list pre" "1 \<le> r"
    using sum_list_rolls_nonneg by blast+
  with t have k: "0 < t + sum_list pre + r" by simp
  show "heap w' = heap w \<or>
     (\<exists>k evs. 0 < k \<and>
        heap w' = (heap w)(p := (heap w p)\<lparr>score := score (heap w p) + k\<rparr>) \<and>
        stdout w' = stdout w @ evs @ [Holds (name (heap w p)) (score (heap w p) + k)])"
  proof (cases "r = 1")
    case True
    with fin show ?thesis by simp
  next
    case False
    with fin k show ?thesis by auto
  qed
qed

lemma play_turn_Raises_heap:
  assumes "play_turn g w = Raises e w'"
  shows "heap w' = heap w"
proof (cases "current_player_index g < length (players g)")
  case False
  with assms show ?thesis by (simp add: play_turn_def)
next
  case True
  then have sw: "switch_player g =
      Inr (g\<lparr>current_player_index := (current_player_index g + 1) mod length (players g)\<rparr>)"
    by (auto simp: switch_player_def)
  from assms True sw have "turn_loop (players g ! current_player_index g) 0 w = Raises e w'"
    by (simp add: play_turn_def Let_def split: result.splits)
  from turn_loop_Raises [OF refl this] show ?thesis by simp
qed

lemma play_turn_heap:
  assumes valid: "\<forall>r\<in>set (rolls w). 1 \<le> r"
    and run: "play_turn g w = Returns g' w'"
  shows "heap w' = heap w \<or>
     (\<exists>k evs. 0 < k \<and>
        heap w' = (heap w)(players g ! current_player_index g :=
            (heap w (players g ! current_player_index g))
              \<lparr>score := score (heap w (players g ! current_player_index g)) + k\<rparr>) \<and>
        stdout w' = stdout w @ evs @
          [Holds (name (heap w (players g ! current_player_index g)))
             (score (heap w (players g ! current_player_index g)) + k)])"
    and "set (rolls w') \<subseteq> set (rolls w)"
    and "players g' = players g"
  using turn_loop_heap [OF valid _ play_turn_Returns(2) [OF run]] play_turn_Returns(3) [OF run]
  by simp_all

lemma play_turn_mono:
  assumes valid: "\<forall>r\<in>set (rolls w). 1 \<le> r"
    and run: "play_turn g w = Returns g' w' \<or> play_turn g w = Raises e w'"
  shows "score (heap w q) \<le> score (heap w' q)"
  using run
proof
  assume "play_turn g w = Returns g' w'"
  from play_turn_heap(1) [OF valid this] show ?thesis by auto
next
  assume "play_turn g w = Raises e w'"
  from play_turn_Raises_heap [OF this] show ?thesis by simp
qed

lemma game_loop_mono:
  assumes "\<forall>r\<in>set (rolls w). 1 \<le> r"
    and "game_loop g w = Returns g' w' \<or> game_loop g w = Raises e w'"
  shows "score (heap w q) \<le> score (heap w' q)"
  using assms
proof (induction g w rule: game_loop.induct)
  case (1 g w)
  show ?case
  proof (cases "is_game_over g w")
    case True
    with "1.prems"(2) show ?thesis by (simp add: game_loop.simps)
  next
    case False
    show ?thesis
    proof (cases "play_turn g w")
      case (Returns g1 w1)
      have v1: "\<forall>r\<in>set (rolls w1). 1 \<le> r"
        using play_turn_heap(2) [OF "1.prems"(1) Returns] "1.prems"(1) by blast
      have "game_loop g1 w1 = Returns g' w' \<or> game_loop g1 w1 = Raises e w'"
        using "1.prems"(2) False Returns by (simp add: game_loop.simps)
      from "1.IH" [OF False Returns v1 this]
      have "score (heap w1 q) \<le> score (heap w' q)" .
      moreover have "score (heap w q) \<le> score (heap w1 q)"
        using play_turn_mono [OF "1.prems"(1), of g g1 w1] Returns by simp
      ultimately show ?thesis by simp
    next
      case (Raises e1 w1)
      with "1.prems"(2) False have "w' = w1" by (simp add: game_loop.simps)
      with play_turn_Raises_heap [OF Raises] show ?thesis by simp
    next
      case Starved
      with "1.prems"(2) False show ?thesis by (simp add: game_loop.simps)
    qed
  qed
qed

lemma timed_loop_mono:
  assumes "\<forall>r\<in>set (rolls w). 1 \<le> r"
    and "timed_loop limit start_time g w = Returns g' w' \<or>
         timed_loop limit start_time g w = Raises e w'"
  shows "score (heap w q) \<le> score (heap w' q)"
  using assms
proof (induction limit start_time g w rule: timed_loop.induct)
  case (1 limit start_time g w)
  show ?case
  proof (cases "is_game_over g w")
    case True
    with "1.prems"(2) show ?thesis by (simp add: timed_loop.simps)
  next
    case False
    show ?thesis
    proof (cases "clock w")
      case Nil
      with "1.prems"(2) False show ?thesis by (simp add: timed_loop.simps time_def)
    next
      case (Cons c cs)
      then have tm: "time w = Some (c, w\<lparr>clock := cs\<rparr>)" by (simp add: time_def)
      show ?thesis
      proof (cases "c - start_time > limit")
        case True
        with "1.prems"(2) False tm show ?thesis
          by (auto simp: timed_loop.simps print_def)
      next
        case late: False
        let ?w0 = "w\<lparr>clock := cs\<rparr>"
        have v0: "\<forall>r\<in>set (rolls ?w0). 1 \<le> r" using "1.prems"(1) by simp
        show ?thesis
        proof (cases "play_turn g ?w0")
          case (Returns g1 w1)
          have v1: "\<forall>r\<in>set (rolls w1). 1 \<le> r"
            using play_turn_heap(2) [OF v0 Returns] v0 by blast
          have "timed_loop limit start_time g1 w1 = Returns g' w' \<or>
                timed_loop limit start_time g1 w1 = Raises e w'"
            using "1.prems"(2) False tm late Returns by (simp add: timed_loop.simps)
          from "1.IH" [OF False tm refl refl late Returns v1 this]
          have "score (heap w1 q) \<le> score (heap w' q)" .
          moreover have "score (heap ?w0 q) \<le> score (heap w1 q)"
            using play_turn_mono [OF v0, of g g1 w1] Returns by simp
          ultimately show ?thesis by simp
        next
          case (Raises e1 w1)
          with "1.prems"(2) False tm late have "w' = w1" by (simp add: timed_loop.simps)
          with play_turn_Raises_heap [OF Raises] show ?thesis by simp
        next
          case Starved
          with "1.prems"(2) False tm late show ?thesis by (simp add: timed_loop.simps)
        qed
      qed
    qed
  qed
qed

text \<open>
  C7. With a die that shows 1 to 6: a player is constructed with score 0, and the two
  players of a new game are distinct objects with score 0. A turn changes the store, if at
  all, in one way only: the score of the current player grows by a positive turn total, and
  the last thing written is that the player holds; so no score ever decreases in a turn,
  every object other than the current player is untouched, in particular the other player
  of a two-player game. A turn that raises leaves the store as it was. Over a whole game,
  timed or not, however it ends, no score decreases and a score that was not negative is
  not negative afterwards. \<^verbatim>\<open>reset_game\<close> sets the scores of the players of the
  game to exactly 0 and changes no other score.
\<close>

theorem score_invariants:
  assumes dice: "\<forall>r\<in>set (rolls w). 1 \<le> r \<and> r \<le> 6"
  shows
   "(create_player player_type n w = Returns p v \<longrightarrow> score (heap v p) = 0) \<and>
    (PigGame_init t1 t2 w = Returns g0 v0 \<longrightarrow>
       (\<forall>q\<in>set (players g0). score (heap v0 q) = 0) \<and>
       distinct (players g0) \<and> length (players g0) = 2) \<and>
    (play_turn g w = Returns g' w' \<longrightarrow>
       players g' = players g \<and>
       (\<forall>q. score (heap w q) \<le> score (heap w' q)) \<and>
       (\<forall>q. q \<noteq> players g ! current_player_index g \<longrightarrow> heap w' q = heap w q) \<and>
       (heap w' = heap w \<or>
        (\<exists>k evs. 0 < k \<and>
           heap w' = (heap w)(players g ! current_player_index g :=
               (heap w (players g ! current_player_index g))
                 \<lparr>score := score (heap w (players g ! current_player_index g)) + k\<rparr>) \<and>
           stdout w' = stdout w @ evs @
             [Holds (name (heap w (players g ! current_player_index g)))
                (score (heap w (players g ! current_player_index g)) + k)])) \<and>
       (length (players g) = 2 \<and> distinct (players g) \<longrightarrow>
          heap w' (players g ! (1 - current_player_index g)) =
          heap w (players g ! (1 - current_player_index g)))) \<and>
    (play_turn g w = Raises e w' \<longrightarrow> heap w' = heap w) \<and>
    (game_loop g w = Returns g1 w1 \<or> game_loop g w = Raises e1 w1 \<or>
     timed_loop limit start_time g w = Returns g1 w1 \<or>
     timed_loop limit start_time g w = Raises e1 w1 \<longrightarrow>
       (\<forall>q. score (heap w q) \<le> score (heap w1 q)) \<and>
       (\<forall>q. 0 \<le> score (heap w q) \<longrightarrow> 0 \<le> score (heap w1 q))) \<and>
    (reset_game g w = (gr, wr) \<longrightarrow>
       (\<forall>q. score (heap wr q) = (if q \<in> set (players g) then 0 else score (heap w q))))"
proof (intro conjI impI)
  have valid: "\<forall>r\<in>set (rolls w). 1 \<le> r" using dice by simp
  show "score (heap v p) = 0" if "create_player player_type n w = Returns p v"
    using that by (auto simp: create_player_def new_player_def split: if_splits)
  {
    assume init: "PigGame_init t1 t2 w = Returns g0 v0"
    then obtain a wa b where
      a: "create_player t1 ''Player 1'' w = Returns a wa"
      and b: "create_player t2 ''Player 2'' wa = Returns b v0"
      and g0: "g0 = \<lparr>players = [a, b], current_player_index = 0\<rparr>"
      by (auto simp: PigGame_init_def split: result.splits)
    from a have a': "a = next_ref w" "next_ref wa = Suc (next_ref w)" "score (heap wa a) = 0"
      by (auto simp: create_player_def new_player_def split: if_splits)
    from b have b': "b = next_ref wa" "score (heap v0 b) = 0" "\<forall>q. q \<noteq> b \<longrightarrow> heap v0 q = heap wa q"
      by (auto simp: create_player_def new_player_def split: if_splits)
    from a' b' have ab: "a \<noteq> b" by simp
    with a' b' have "score (heap v0 a) = 0" by simp
    with b' g0 show "\<forall>q\<in>set (players g0). score (heap v0 q) = 0" by simp
    from ab g0 show "distinct (players g0)" by simp
    from g0 show "length (players g0) = 2" by simp
  }
  {
    assume run: "play_turn g w = Returns g' w'"
    let ?p = "players g ! current_player_index g"
    note h = play_turn_heap [OF valid run]
    show "players g' = players g" by (rule h(3))
    show "\<forall>q. score (heap w q) \<le> score (heap w' q)"
      using play_turn_mono [OF valid, of g g' w'] run by simp
    show "heap w' = heap w \<or>
        (\<exists>k evs. 0 < k \<and>
           heap w' = (heap w)(?p := (heap w ?p)\<lparr>score := score (heap w ?p) + k\<rparr>) \<and>
           stdout w' = stdout w @ evs @
             [Holds (name (heap w ?p)) (score (heap w ?p) + k)])"
      by (rule h(1))
    show others: "\<forall>q. q \<noteq> ?p \<longrightarrow> heap w' q = heap w q"
      using h(1) by auto
    show "heap w' (players g ! (1 - current_player_index g)) =
          heap w (players g ! (1 - current_player_index g))"
      if two: "length (players g) = 2 \<and> distinct (players g)"
    proof -
      have i: "current_player_index g < 2"
        using play_turn_Returns(1) [OF run] two by simp
      then have "1 - current_player_index g \<noteq> current_player_index g"
        "1 - current_player_index g < 2" by arith+
      with two i have "players g ! (1 - current_player_index g) \<noteq> ?p"
        by (simp add: nth_eq_iff_index_eq)
      with others show ?thesis by simp
    qed
  }
  show "heap w' = heap w" if "play_turn g w = Raises e w'"
    using that by (rule play_turn_Raises_heap)
  {
    assume "game_loop g w = Returns g1 w1 \<or> game_loop g w = Raises e1 w1 \<or>
     timed_loop limit start_time g w = Returns g1 w1 \<or>
     timed_loop limit start_time g w = Raises e1 w1"
    then have "(game_loop g w = Returns g1 w1 \<or> game_loop g w = Raises e1 w1) \<or>
     (timed_loop limit start_time g w = Returns g1 w1 \<or>
      timed_loop limit start_time g w = Raises e1 w1)" by blast
    then have m: "score (heap w q) \<le> score (heap w1 q)" for q
    proof
      assume "game_loop g w = Returns g1 w1 \<or> game_loop g w = Raises e1 w1"
      then show ?thesis by (rule game_loop_mono [OF valid])
    next
      assume "timed_loop limit start_time g w = Returns g1 w1 \<or>
        timed_loop limit start_time g w = Raises e1 w1"
      then show ?thesis by (rule timed_loop_mono [OF valid])
    qed
    then show "\<forall>q. score (heap w q) \<le> score (heap w1 q)" by blast
    show "\<forall>q. 0 \<le> score (heap w q) \<longrightarrow> 0 \<le> score (heap w1 q)"
      using m by (meson order_trans)
  }
  show "\<forall>q. score (heap wr q) = (if q \<in> set (players g) then 0 else score (heap w q))"
    if "reset_game g w = (gr, wr)"
    using that by (auto simp: reset_game_def fold_reset_score)
qed

lemma example_bank_turn:
  "play_turn (example_game 1) (example_world 10 95 [6, 5, 5] []) =
     Returns (example_game 0)
       ((example_world 10 101 [5, 5] [])\<lparr>stdout :=
           [Rolled ''Player 2'' 6, TurnTotal 6 ''Player 2'' 95,
            Decides ''Player 2'' ''hold'', Holds ''Player 2'' 101]\<rparr>)"
  by (simp add: play_turn_def switch_player_def example_game_def example_world_def
        example_heap_def turn_loop_other get_decision_computer decide_def hold_def
        print_def fun_eq_iff)

theorem score_invariants_witness:
  "list_all (\<lambda>r. 1 \<le> r \<and> r \<le> 6) (rolls (example_world 10 95 [6, 5, 5] [])) \<and>
   play_turn (example_game 1) (example_world 10 95 [6, 5, 5] []) =
     Returns (example_game 0)
       ((example_world 10 101 [5, 5] [])\<lparr>stdout :=
           [Rolled ''Player 2'' 6, TurnTotal 6 ''Player 2'' 95,
            Decides ''Player 2'' ''hold'', Holds ''Player 2'' 101]\<rparr>) \<and>
   length (players (example_game 1)) = 2 \<and> distinct (players (example_game 1)) \<and>
   heap (example_world 10 101 [5, 5] []) 0 = heap (example_world 10 95 [6, 5, 5] []) 0 \<and>
   score (heap (example_world 10 95 [6, 5, 5] []) 1) \<le> score (heap (example_world 10 101 [5, 5] []) 1) \<and>
   score (heap (example_world 10 101 [5, 5] []) 1) = 101 \<and>
   (\<exists>v. create_player ''human'' ''Player 1'' (example_world 10 95 [6, 5, 5] []) = Returns 2 v \<and>
        score (heap v 2) = 0) \<and>
   (\<exists>w2. reset_game (example_game 1) (example_world 10 95 [6, 5, 5] []) = (example_game 0, w2) \<and>
         score (heap w2 0) = 0 \<and> score (heap w2 1) = 0)"
proof -
  let ?w = "example_world 10 95 [6, 5, 5] []"
  let ?w1 = "(example_world 10 101 [5, 5] [])\<lparr>stdout :=
           [Rolled ''Player 2'' 6, TurnTotal 6 ''Player 2'' 95,
            Decides ''Player 2'' ''hold'', Holds ''Player 2'' 101]\<rparr>"
  have dice: "\<forall>r\<in>set (rolls ?w). 1 \<le> r \<and> r \<le> 6"
    by (simp add: example_world_def)
  have two: "length (players (example_game 1)) = 2 \<and> distinct (players (example_game 1))"
    by (simp add: example_game_def)
  obtain v where v: "create_player ''human'' ''Player 1'' ?w = Returns 2 v"
    by (simp add: create_player_def new_player_def example_world_def)
  obtain w2 where w2: "reset_game (example_game 1) ?w = (example_game 0, w2)"
    by (simp add: reset_game_def example_game_def)
  note inv = score_invariants [OF dice, where g = "example_game 1" and g' = "example_game 0"
      and w' = ?w1 and player_type = "''human''" and n = "''Player 1''" and p = 2 and v = v
      and gr = "example_game 0" and wr = w2]
  from inv v have 1: "score (heap v 2) = 0" by blast
  from inv example_bank_turn two
  have 2: "heap ?w1 (players (example_game 1) ! (1 - current_player_index (example_game 1))) =
          heap ?w (players (example_game 1) ! (1 - current_player_index (example_game 1)))"
    and 3: "\<forall>q. score (heap ?w q) \<le> score (heap ?w1 q)"
    by blast+
  from inv w2 have 4: "\<forall>q. score (heap w2 q) =
      (if q \<in> set (players (example_game 1)) then 0 else score (heap ?w q))"
    by blast
  from 2 have a2: "heap (example_world 10 101 [5, 5] []) 0 = heap ?w 0"
    by (simp add: example_game_def)
  from 3 have a3: "score (heap ?w 1) \<le> score (heap (example_world 10 101 [5, 5] []) 1)"
    by (simp add: example_game_def)
  from 4 have a4: "score (heap w2 0) = 0 \<and> score (heap w2 1) = 0"
    by (simp add: example_game_def)
  have 5: "list_all (\<lambda>r. 1 \<le> r \<and> r \<le> 6) (rolls ?w)"
    "score (heap (example_world 10 101 [5, 5] []) 1) = 101"
    by (simp_all add: example_world_def example_heap_def)
  from 1 v a2 a3 a4 w2 5 two example_bank_turn show ?thesis by blast
qed

end
